theory Spec2Isabelle
  imports Main "HOL-Library.AList" "HOL-Library.Multiset"
begin

section \<open>Data model of the sprint game (src/index.js)\<close>

text \<open>
  The sprint game of \<^verbatim>\<open>src/index.js\<close> keeps two process-wide JavaScript Maps,
  \<^verbatim>\<open>sprintGames\<close> (game id to game object) and \<^verbatim>\<open>activePlayers\<close> (socket id to
  \<^verbatim>\<open>{gameId, username}\<close>), one SQLite table \<^verbatim>\<open>sprint_results\<close>, the timers of the
  Node event loop and the Socket.IO channel. The model is a record of all of these, and
  every handler of the source is a function from server state to server state.

  Game objects are JavaScript objects, so the registry holds references: the countdown
  interval of \<^verbatim>\<open>startSprintCountdown\<close> closes over the object \<^verbatim>\<open>game\<close> itself, not over
  its id, and keeps mutating it whatever the registry says. Hence an explicit store
  \<open>heap\<close> from references to game objects. A cell that was never allocated holds some
  game value that no handler ever reaches.

  Numbers: \<^verbatim>\<open>taps\<close>, \<^verbatim>\<open>countdown\<close>, \<^verbatim>\<open>gameDuration\<close> and the clock are JavaScript numbers
  holding integers far below \<open>2^53\<close> (a tap counter starts at 0 and grows by one per
  socket event), where JavaScript arithmetic is exact; they are modelled as \<open>int\<close>.
\<close>

type_synonym gameId = string
type_synonym socketId = string
type_synonym ref = nat

datatype status = Waiting | Countdown | Active | Finished

record player =
  pid :: socketId
  username :: string
  taps :: int
  connected :: bool

text \<open>
  \<^verbatim>\<open>game.players\<close> is a JavaScript \<^verbatim>\<open>Map\<close>: it iterates in insertion order,
  \<^verbatim>\<open>set\<close> on a present key replaces the value in place, \<^verbatim>\<open>set\<close> on a new key
  appends, \<^verbatim>\<open>delete\<close> removes the entry. That is an association list with the update
  and delete of the library theory \<open>AList\<close>.
\<close>

type_synonym ('k, 'v) jsmap = "('k \<times> 'v) list"

definition Map_set :: "'k \<Rightarrow> 'v \<Rightarrow> ('k, 'v) jsmap \<Rightarrow> ('k, 'v) jsmap" where
  "Map_set k v m = AList.update k v m"

definition Map_get :: "('k, 'v) jsmap \<Rightarrow> 'k \<Rightarrow> 'v option" where
  "Map_get m k = map_of m k"

definition Map_delete :: "'k \<Rightarrow> ('k, 'v) jsmap \<Rightarrow> ('k, 'v) jsmap" where
  "Map_delete k m = AList.delete k m"

definition Map_values :: "('k, 'v) jsmap \<Rightarrow> 'v list" where
  "Map_values m = map snd m"

definition Map_size :: "('k, 'v) jsmap \<Rightarrow> nat" where
  "Map_size m = length m"

record game =
  gid :: gameId
  status :: status
  players :: "(socketId, player) jsmap"
  startTime :: "int option"
  endTime :: "int option"
  countdown :: int
  gameDuration :: int

text \<open>
  A row of \<^verbatim>\<open>sprint_results\<close> as the INSERT of \<^verbatim>\<open>endSprintGame\<close> fills it
  (\<^verbatim>\<open>game_id, user_id, taps\<close>; the row id is its position in the table, and
  \<^verbatim>\<open>created_at\<close> is filled by the store).
\<close>

record result_row =
  game_id :: gameId
  user_id :: "nat option"
  row_taps :: int

text \<open>
  Timers. \<^verbatim>\<open>setInterval\<close> and \<^verbatim>\<open>setTimeout\<close> register a callback under a fresh handle;
  the three callbacks of the source are the countdown tick (a closure over \<^verbatim>\<open>gameId\<close> and
  the object \<^verbatim>\<open>game\<close>), the end of the game window and the clean-up of the registry.
\<close>

datatype callback = CountdownTick gameId ref | EndGame gameId | Cleanup gameId

record timer =
  delay :: int
  repeat :: bool
  callback :: callback

text \<open>
  What the server sends: \<^verbatim>\<open>socket.emit\<close> goes to one socket, \<^verbatim>\<open>io.to(gameId).emit\<close> to
  the room named by the game id. Payloads are serialised when they are emitted, so an
  emission holds values, not references.
\<close>

datatype dest = ToSocket socketId | ToRoom gameId

datatype emission =
    ErrorEv string
  | PlayersUpdated "player list" status
  | CountdownEv int
  | GameStarted int
  | GameEnded "player list" "player option"
  | TapUpdate socketId string int

record server =
  heap :: "ref \<Rightarrow> game"
  next_ref :: ref
  sprintGames :: "gameId \<rightharpoonup> ref"
  activePlayers :: "socketId \<rightharpoonup> (gameId \<times> string option)"
  rooms :: "gameId \<Rightarrow> socketId set"
  sprint_results :: "result_row list"
  users :: "nat \<rightharpoonup> string"
  timers :: "nat \<rightharpoonup> timer"
  next_timer :: nat
  emitted :: "(dest \<times> emission) list"
  console_errors :: "string list"

text \<open>
  The payload of \<^verbatim>\<open>join-sprint\<close> is \<^verbatim>\<open>{gameId, username}\<close>; the handler reads these two
  fields and nothing else. \<open>d_caller\<close> is the user id that the caller's token resolves
  to (\<open>None\<close> for an anonymous caller): it is what the environment knows about the
  caller, and no line of the handler reads it. A payload that is \<^verbatim>\<open>null\<close> or
  \<^verbatim>\<open>undefined\<close> makes the destructuring throw; it is the \<open>None\<close> of the handlers below.
\<close>

record join_data =
  d_gameId :: gameId
  d_username :: "string option"
  d_caller :: "nat option"

record tap_data =
  t_gameId :: gameId

section \<open>Primitives: emitting, logging, timers, the store\<close>

definition emit :: "dest \<Rightarrow> emission \<Rightarrow> server \<Rightarrow> server" where
  "emit d e st = st\<lparr>emitted := emitted st @ [(d, e)]\<rparr>"

definition console_error :: "string \<Rightarrow> server \<Rightarrow> server" where
  "console_error msg st = st\<lparr>console_errors := console_errors st @ [msg]\<rparr>"

definition setTimer :: "callback \<Rightarrow> int \<Rightarrow> bool \<Rightarrow> server \<Rightarrow> server" where
  "setTimer cb d rep st =
     st\<lparr>timers := (timers st)(next_timer st \<mapsto> \<lparr>delay = d, repeat = rep, callback = cb\<rparr>),
        next_timer := Suc (next_timer st)\<rparr>"

definition setInterval :: "callback \<Rightarrow> int \<Rightarrow> server \<Rightarrow> server" where
  "setInterval cb d st = setTimer cb d True st"

definition setTimeout :: "callback \<Rightarrow> int \<Rightarrow> server \<Rightarrow> server" where
  "setTimeout cb d st = setTimer cb d False st"

definition clearInterval :: "nat \<Rightarrow> server \<Rightarrow> server" where
  "clearInterval h st = st\<lparr>timers := (timers st)(h := None)\<rparr>"

definition update_game :: "ref \<Rightarrow> (game \<Rightarrow> game) \<Rightarrow> server \<Rightarrow> server" where
  "update_game r f st = st\<lparr>heap := (heap st)(r := f (heap st r))\<rparr>"

text \<open>
  \<^verbatim>\<open>db.run('INSERT INTO sprint_results ...', [gameId, null, taps], (err) => ...)\<close> hands
  the write to the store and returns at once. The store either rejects the write, which
  the callback logs and nothing else, or commits it, and it commits the writes that
  are under way in an order of its own: \<^verbatim>\<open>endSprintGame\<close> issues its writes in a
  \<^verbatim>\<open>forEach\<close>, outside \<^verbatim>\<open>db.serialize\<close>. The table is kept in commit order. What the
  store does with a write is therefore an argument: \<open>WriteFails\<close>, or \<open>WriteLands k\<close>
  when \<open>k\<close> of the rows issued before this one commit after it, so that the row stands
  \<open>k\<close> places before the end of the table (at its head when the table is shorter);
  \<open>WriteLands 0\<close> puts it last. A row is in the table from the moment its write is issued.
\<close>

datatype db_write = WriteFails | WriteLands nat

definition land_row :: "nat \<Rightarrow> 'a \<Rightarrow> 'a list \<Rightarrow> 'a list" where
  "land_row k row rows = take (length rows - k) rows @ row # drop (length rows - k) rows"

definition db_run_insert :: "db_write \<Rightarrow> result_row \<Rightarrow> server \<Rightarrow> server" where
  "db_run_insert w row st =
     (case w of
        WriteFails \<Rightarrow> console_error ''Error saving sprint result:'' st
      | WriteLands k \<Rightarrow> st\<lparr>sprint_results := land_row k row (sprint_results st)\<rparr>)"

text \<open>
  \<^verbatim>\<open>Array.prototype.sort(cmp)\<close> is a stable sort (ECMAScript 2019): an element goes
  before the first element of the sorted rest that it does not compare greater than.
\<close>

fun sort_insert :: "('a \<Rightarrow> 'a \<Rightarrow> int) \<Rightarrow> 'a \<Rightarrow> 'a list \<Rightarrow> 'a list" where
  "sort_insert cmp x [] = [x]"
| "sort_insert cmp x (y # ys) =
     (if cmp x y \<le> 0 then x # y # ys else y # sort_insert cmp x ys)"

definition Array_sort :: "('a \<Rightarrow> 'a \<Rightarrow> int) \<Rightarrow> 'a list \<Rightarrow> 'a list" where
  "Array_sort cmp xs = foldr (sort_insert cmp) xs []"

text \<open>The comparator \<^verbatim>\<open>(a, b) => b.taps - a.taps\<close>.\<close>

definition by_taps_desc :: "player \<Rightarrow> player \<Rightarrow> int" where
  "by_taps_desc a b = taps b - taps a"

text \<open>\<^verbatim>\<open>sortedPlayers[0]\<close>: the first element, \<^verbatim>\<open>undefined\<close> for an empty array.\<close>

definition first_elem :: "'a list \<Rightarrow> 'a option" where
  "first_elem xs = (case xs of [] \<Rightarrow> None | x # _ \<Rightarrow> Some x)"

section \<open>The HTTP routes\<close>

text \<open>
  \<^verbatim>\<open>POST /api/sprint/start\<close>. The id is
  \<^verbatim>\<open>sprint_${Date.now()}_${Math.random().toString(36).substr(2, 9)}\<close>; the two generated
  pieces, as text, are arguments. The response carries the id.
\<close>

definition new_game :: "gameId \<Rightarrow> game" where
  "new_game g = \<lparr>gid = g, status = Waiting, players = [], startTime = None,
                 endTime = None, countdown = 5, gameDuration = 15000\<rparr>"

definition createGame :: "string \<Rightarrow> string \<Rightarrow> server \<Rightarrow> gameId \<times> server" where
  "createGame ts rnd st =
     (let gameId = ''sprint_'' @ ts @ ''_'' @ rnd;
          r = next_ref st
      in (gameId,
          st\<lparr>heap := (heap st)(r := new_game gameId),
             next_ref := Suc r,
             sprintGames := (sprintGames st)(gameId \<mapsto> r)\<rparr>))"

text \<open>
  \<^verbatim>\<open>GET /api/sprint/results/:gameId\<close> runs
  \<^verbatim>\<open>SELECT sr.*, u.username FROM sprint_results sr LEFT JOIN users u ON sr.user_id = u.id
  WHERE sr.game_id = ? ORDER BY sr.taps DESC\<close>
  and answers \<^verbatim>\<open>{success: true, results}\<close>, or status 500 with
  \<^verbatim>\<open>Failed to fetch results\<close> when the store reports an error. It reads the table only.
  SQL leaves the order of rows with equal \<^verbatim>\<open>taps\<close> open; the model keeps them in table
  order, and no theorem below depends on that choice.
\<close>

definition left_join_users :: "server \<Rightarrow> result_row \<Rightarrow> result_row \<times> string option" where
  "left_join_users st row =
     (row, case user_id row of None \<Rightarrow> None | Some u \<Rightarrow> users st u)"

definition select_results :: "server \<Rightarrow> gameId \<Rightarrow> (result_row \<times> string option) list" where
  "select_results st gameId =
     sort_key (\<lambda>(row, u). - row_taps row)
       (map (left_join_users st) (filter (\<lambda>row. game_id row = gameId) (sprint_results st)))"

definition getResults :: "server \<Rightarrow> gameId \<Rightarrow> bool \<Rightarrow> string + (result_row \<times> string option) list" where
  "getResults st gameId db_err =
     (if db_err then Inl ''Failed to fetch results'' else Inr (select_results st gameId))"

section \<open>The sprint game helper functions\<close>

text \<open>
  \<^verbatim>\<open>endSprintGame\<close>: one INSERT per player, issued in Map order, then the in-place sort,
  the broadcast, and the clean-up timer of 30 seconds. \<open>writes\<close> tells for each write,
  in the order of issue, what the store does with it; a write beyond the list is
  committed last.
\<close>

definition write_for :: "db_write list \<Rightarrow> db_write" where
  "write_for writes = (case writes of [] \<Rightarrow> WriteLands 0 | w # _ \<Rightarrow> w)"

fun save_results :: "gameId \<Rightarrow> db_write list \<Rightarrow> player list \<Rightarrow> server \<Rightarrow> server" where
  "save_results gameId writes [] st = st"
| "save_results gameId writes (p # ps) st =
     save_results gameId (tl writes) ps
       (db_run_insert (write_for writes)
          \<lparr>game_id = gameId, user_id = None, row_taps = taps p\<rparr> st)"

definition endSprintGame :: "gameId \<Rightarrow> db_write list \<Rightarrow> server \<Rightarrow> server" where
  "endSprintGame gameId writes st =
     (case sprintGames st gameId of
        None \<Rightarrow> st
      | Some r \<Rightarrow>
          let st1 = update_game r (\<lambda>game. game\<lparr>status := Finished\<rparr>) st;
              ps = Map_values (players (heap st1 r));
              st2 = save_results gameId writes ps st1;
              sortedPlayers = Array_sort by_taps_desc ps;
              winner = first_elem sortedPlayers;
              st3 = emit (ToRoom gameId) (GameEnded sortedPlayers winner) st2
          in setTimeout (Cleanup gameId) 30000 st3)"

definition cleanupGame :: "gameId \<Rightarrow> server \<Rightarrow> server" where
  "cleanupGame gameId st = st\<lparr>sprintGames := (sprintGames st)(gameId := None)\<rparr>"

text \<open>\<^verbatim>\<open>startSprintGame\<close>; \<open>now\<close> is the value of \<^verbatim>\<open>Date.now()\<close>.\<close>

definition startSprintGame :: "gameId \<Rightarrow> int \<Rightarrow> server \<Rightarrow> server" where
  "startSprintGame gameId now st =
     (case sprintGames st gameId of
        None \<Rightarrow> st
      | Some r \<Rightarrow>
          let st1 = update_game r (\<lambda>game. game\<lparr>status := Active, startTime := Some now,
                                                endTime := Some (now + gameDuration game)\<rparr>) st;
              game = heap st1 r;
              st2 = emit (ToRoom gameId) (GameStarted (gameDuration game)) st1
          in setTimeout (EndGame gameId) (gameDuration game) st2)"

text \<open>
  The body of the interval of \<^verbatim>\<open>startSprintCountdown\<close>. \<open>h\<close> is the interval's own handle
  (\<^verbatim>\<open>countdownInterval\<close>), \<open>r\<close> the game object the closure holds.
\<close>

definition countdownTick :: "nat \<Rightarrow> gameId \<Rightarrow> ref \<Rightarrow> int \<Rightarrow> server \<Rightarrow> server" where
  "countdownTick h gameId r now st =
     (let st1 = emit (ToRoom gameId) (CountdownEv (countdown (heap st r))) st;
          st2 = update_game r (\<lambda>game. game\<lparr>countdown := countdown game - 1\<rparr>) st1
      in if countdown (heap st2 r) < 0
         then startSprintGame gameId now (clearInterval h st2)
         else st2)"

definition startSprintCountdown :: "gameId \<Rightarrow> server \<Rightarrow> server" where
  "startSprintCountdown gameId st =
     (case sprintGames st gameId of
        None \<Rightarrow> st
      | Some r \<Rightarrow>
          let st1 = update_game r (\<lambda>game. game\<lparr>status := Countdown, countdown := 5\<rparr>) st
          in setInterval (CountdownTick gameId r) 1000 st1)"

text \<open>
  The event loop runs a pending timer: a timeout is gone once it has run, an interval
  stays until it is cleared. Running a handle that is not pending does nothing.
\<close>

definition run_callback :: "nat \<Rightarrow> callback \<Rightarrow> int \<Rightarrow> db_write list \<Rightarrow> server \<Rightarrow> server" where
  "run_callback h cb now writes st =
     (case cb of
        CountdownTick gameId r \<Rightarrow> countdownTick h gameId r now st
      | EndGame gameId \<Rightarrow> endSprintGame gameId writes st
      | Cleanup gameId \<Rightarrow> cleanupGame gameId st)"

definition fire :: "nat \<Rightarrow> int \<Rightarrow> db_write list \<Rightarrow> server \<Rightarrow> server" where
  "fire h now writes st =
     (case timers st h of
        None \<Rightarrow> st
      | Some t \<Rightarrow>
          run_callback h (callback t) now writes
            (if repeat t then st else st\<lparr>timers := (timers st)(h := None)\<rparr>))"

section \<open>The Socket.IO handlers\<close>

text \<open>\<^verbatim>\<open>username || `Player_${socket.id.substr(0, 6)}`\<close>: a missing or empty name is falsy.\<close>

definition display_name :: "socketId \<Rightarrow> string option \<Rightarrow> string" where
  "display_name sid u =
     (case u of
        None \<Rightarrow> ''Player_'' @ take 6 sid
      | Some n \<Rightarrow> if n = [] then ''Player_'' @ take 6 sid else n)"

text \<open>
  \<^verbatim>\<open>socket.on('join-sprint', ...)\<close>. \<^verbatim>\<open>socket.join(gameId)\<close> puts the socket into the room;
  \<open>rooms\<close> records these calls (what Socket.IO itself does to rooms when a socket goes
  away is not code of this repository).
\<close>

definition join_sprint :: "socketId \<Rightarrow> join_data option \<Rightarrow> server \<Rightarrow> server" where
  "join_sprint sid data st =
     (case data of
        None \<Rightarrow>
          emit (ToSocket sid) (ErrorEv ''Failed to join game'')
            (console_error ''Error joining sprint game:'' st)
      | Some d \<Rightarrow>
          (case sprintGames st (d_gameId d) of
             None \<Rightarrow> emit (ToSocket sid) (ErrorEv ''Game not found'') st
           | Some r \<Rightarrow>
               if status (heap st r) \<noteq> Waiting \<and> status (heap st r) \<noteq> Countdown
               then emit (ToSocket sid) (ErrorEv ''Game already started or finished'') st
               else
                 let st1 = update_game r (\<lambda>game. game\<lparr>players :=
                             Map_set sid \<lparr>pid = sid, username = display_name sid (d_username d),
                                          taps = 0, connected = True\<rparr> (players game)\<rparr>) st;
                     st2 = st1\<lparr>activePlayers :=
                             (activePlayers st1)(sid \<mapsto> (d_gameId d, d_username d))\<rparr>;
                     st3 = st2\<lparr>rooms := (rooms st2)(d_gameId d := insert sid (rooms st2 (d_gameId d)))\<rparr>;
                     st4 = emit (ToRoom (d_gameId d))
                             (PlayersUpdated (Map_values (players (heap st3 r))) (status (heap st3 r))) st3
                 in if Map_size (players (heap st4 r)) \<ge> 1 \<and> status (heap st4 r) = Waiting
                    then startSprintCountdown (d_gameId d) st4
                    else st4))"

text \<open>
  \<^verbatim>\<open>socket.on('tap', ...)\<close>. \<^verbatim>\<open>player.taps++\<close> changes the player object inside the Map,
  which keeps its place. The \<^verbatim>\<open>catch\<close> only logs.
\<close>

definition tap :: "socketId \<Rightarrow> tap_data option \<Rightarrow> server \<Rightarrow> server" where
  "tap sid data st =
     (case data of
        None \<Rightarrow> console_error ''Error processing tap:'' st
      | Some d \<Rightarrow>
          (case sprintGames st (t_gameId d) of
             None \<Rightarrow> st
           | Some r \<Rightarrow>
               if status (heap st r) \<noteq> Active then st
               else
                 (case Map_get (players (heap st r)) sid of
                    None \<Rightarrow> st
                  | Some p \<Rightarrow>
                      let st1 = update_game r (\<lambda>game. game\<lparr>players :=
                                  Map_set sid (p\<lparr>taps := taps p + 1\<rparr>) (players game)\<rparr>) st
                      in emit (ToRoom (t_gameId d))
                           (TapUpdate sid (username p) (taps p + 1)) st1)))"

text \<open>\<^verbatim>\<open>socket.on('disconnect', ...)\<close>.\<close>

definition disconnect :: "socketId \<Rightarrow> server \<Rightarrow> server" where
  "disconnect sid st =
     (case activePlayers st sid of
        None \<Rightarrow> st
      | Some playerInfo \<Rightarrow>
          (case sprintGames st (fst playerInfo) of
             None \<Rightarrow> st
           | Some r \<Rightarrow>
               let st1 = update_game r (\<lambda>game. game\<lparr>players := Map_delete sid (players game)\<rparr>) st;
                   st2 = st1\<lparr>activePlayers := (activePlayers st1)(sid := None)\<rparr>
               in emit (ToRoom (fst playerInfo))
                    (PlayersUpdated (Map_values (players (heap st2 r))) (status (heap st2 r))) st2))"

section \<open>Events and runs\<close>

text \<open>
  The server is single-threaded: it handles one event after the other. An event is a
  request, a socket message, or a timer that runs.
\<close>

datatype event =
    EvCreate string string
  | EvJoin socketId "join_data option"
  | EvTap socketId "tap_data option"
  | EvDisconnect socketId
  | EvFire nat int "db_write list"

fun step :: "event \<Rightarrow> server \<Rightarrow> server" where
  "step (EvCreate ts rnd) st = snd (createGame ts rnd st)"
| "step (EvJoin sid data) st = join_sprint sid data st"
| "step (EvTap sid data) st = tap sid data st"
| "step (EvDisconnect sid) st = disconnect sid st"
| "step (EvFire h now writes) st = fire h now writes st"

definition run :: "event list \<Rightarrow> server \<Rightarrow> server" where
  "run evs st = fold step evs st"

text \<open>The server right after start-up: no game, no player, no row, no timer.\<close>

definition init_server :: server where
  "init_server =
     \<lparr>heap = (\<lambda>r. new_game []), next_ref = 0, sprintGames = Map.empty,
      activePlayers = Map.empty, rooms = (\<lambda>g. {}), sprint_results = [], users = Map.empty,
      timers = Map.empty, next_timer = 0, emitted = [], console_errors = []\<rparr>"

section \<open>Example states\<close>

text \<open>
  A game with three players in join order: alice (3 taps), bob (7 taps), carol (3 taps).
  \<open>demo_server s\<close> is a server holding this one game, in status \<open>s\<close>, under the id
  \<open>g1\<close>; the three sockets are tracked and sit in the room of the game.
\<close>

definition alice :: player where
  "alice = \<lparr>pid = ''s1'', username = ''alice'', taps = 3, connected = True\<rparr>"

definition bob :: player where
  "bob = \<lparr>pid = ''s2'', username = ''bob'', taps = 7, connected = True\<rparr>"

definition carol :: player where
  "carol = \<lparr>pid = ''s3'', username = ''carol'', taps = 3, connected = True\<rparr>"

definition demo_game :: "status \<Rightarrow> game" where
  "demo_game s =
     \<lparr>gid = ''g1'', status = s,
      players = [(''s1'', alice), (''s2'', bob), (''s3'', carol)],
      startTime = Some 1000, endTime = Some 16000, countdown = - 1, gameDuration = 15000\<rparr>"

definition demo_server :: "status \<Rightarrow> server" where
  "demo_server s =
     \<lparr>heap = (\<lambda>r. if r = 0 then demo_game s else new_game []), next_ref = 1,
      sprintGames = [''g1'' \<mapsto> 0],
      activePlayers = [''s1'' \<mapsto> (''g1'', Some ''alice''), ''s2'' \<mapsto> (''g1'', Some ''bob''),
                       ''s3'' \<mapsto> (''g1'', Some ''carol'')],
      rooms = (\<lambda>g. if g = ''g1'' then {''s1'', ''s2'', ''s3''} else {}),
      sprint_results = [], users = Map.empty,
      timers = Map.empty, next_timer = 2, emitted = [], console_errors = []\<rparr>"

section \<open>Vocabulary of the properties\<close>

text \<open>
  A tap of socket \<open>sid\<close> on game id \<open>g\<close> is accepted in state \<open>st\<close> when the game is
  registered, its status is active and the socket is a key of its players Map.
\<close>

definition tap_accepted :: "server \<Rightarrow> socketId \<Rightarrow> gameId \<Rightarrow> bool" where
  "tap_accepted st sid g =
     (case sprintGames st g of
        None \<Rightarrow> False
      | Some r \<Rightarrow> status (heap st r) = Active \<and> Map_get (players (heap st r)) sid \<noteq> None)"

text \<open>
  A sequence of tap events, each with its socket and payload, handled in order, and the
  number of events in it that are accepted taps of socket \<open>sid\<close> on game id \<open>g\<close>.
\<close>

fun run_taps :: "(socketId \<times> tap_data option) list \<Rightarrow> server \<Rightarrow> server" where
  "run_taps [] st = st"
| "run_taps ((s, d) # evs) st = run_taps evs (tap s d st)"

fun accepted_taps :: "socketId \<Rightarrow> gameId \<Rightarrow> (socketId \<times> tap_data option) list \<Rightarrow> server \<Rightarrow> nat" where
  "accepted_taps sid g [] st = 0"
| "accepted_taps sid g ((s, d) # evs) st =
     (if s = sid \<and> d = Some \<lparr>t_gameId = g\<rparr> \<and> tap_accepted st sid g then 1 else 0)
       + accepted_taps sid g evs (tap s d st)"

text \<open>The state after the registration of a join, before the countdown is looked at.\<close>

definition joined :: "socketId \<Rightarrow> join_data \<Rightarrow> ref \<Rightarrow> server \<Rightarrow> server" where
  "joined sid d r st =
     emit (ToRoom (d_gameId d))
       (PlayersUpdated
          (Map_values (Map_set sid \<lparr>pid = sid, username = display_name sid (d_username d),
                                     taps = 0, connected = True\<rparr> (players (heap st r))))
          (status (heap st r)))
       ((update_game r (\<lambda>game. game\<lparr>players :=
            Map_set sid \<lparr>pid = sid, username = display_name sid (d_username d),
                         taps = 0, connected = True\<rparr> (players game)\<rparr>) st)
        \<lparr>activePlayers := (activePlayers st)(sid \<mapsto> (d_gameId d, d_username d)),
         rooms := (rooms st)(d_gameId d := insert sid (rooms st (d_gameId d)))\<rparr>)"

text \<open>
  The example game in its countdown, the counter at \<open>n\<close>, with the interval of
  \<^verbatim>\<open>startSprintCountdown\<close> pending under handle 0.
\<close>

definition countdown_server :: "int \<Rightarrow> server" where
  "countdown_server n =
     (demo_server Countdown)
       \<lparr>heap := (\<lambda>r. if r = 0
                    then (demo_game Countdown)\<lparr>startTime := None, endTime := None, countdown := n\<rparr>
                    else new_game []),
        timers := [0 \<mapsto> \<lparr>delay = 1000, repeat = True, callback = CountdownTick ''g1'' 0\<rparr>],
        next_timer := 1\<rparr>"

text \<open>
  The example game while it is active, with the end of its window pending under handle 2.
\<close>

definition active_server :: server where
  "active_server =
     (demo_server Active)
       \<lparr>timers := [2 \<mapsto> \<lparr>delay = 15000, repeat = False, callback = EndGame ''g1''\<rparr>],
        next_timer := 3\<rparr>"

text \<open>
  A whole game from start-up: a game is created, a caller whose token resolves to user 7
  joins it as alice, the six ticks of the countdown run, alice taps once, and the window
  ends.
\<close>

definition alice_run :: "event list" where
  "alice_run =
     [EvCreate ''1'' ''a'',
      EvJoin ''s1'' (Some \<lparr>d_gameId = ''sprint_1_a'', d_username = Some ''alice'', d_caller = Some 7\<rparr>),
      EvFire 0 1000 [], EvFire 0 2000 [], EvFire 0 3000 [], EvFire 0 4000 [], EvFire 0 5000 [],
      EvFire 0 6000 [],
      EvTap ''s1'' (Some \<lparr>t_gameId = ''sprint_1_a''\<rparr>),
      EvFire 1 21000 []]"

text \<open>
  An event ends a game window when it runs a pending timer whose callback is
  \<^verbatim>\<open>endSprintGame\<close>.
\<close>

definition ends_window :: "event \<Rightarrow> server \<Rightarrow> bool" where
  "ends_window ev st =
     (case ev of
        EvFire h now writes \<Rightarrow>
          (case timers st h of
             None \<Rightarrow> False
           | Some t \<Rightarrow> (case callback t of EndGame g \<Rightarrow> True | _ \<Rightarrow> False))
      | _ \<Rightarrow> False)"

text \<open>
  The events of a countdown with disconnects in between: each round is a list of sockets
  that disconnect, followed by one run of the interval \<open>h\<close> at the given time.
\<close>

fun ticks_amid_disconnects :: "nat \<Rightarrow> (socketId list \<times> int) list \<Rightarrow> event list" where
  "ticks_amid_disconnects h [] = []"
| "ticks_amid_disconnects h ((ds, now) # rounds) =
     map EvDisconnect ds @ [EvFire h now []] @ ticks_amid_disconnects h rounds"

text \<open>
  The registry is in order when every registered reference has been allocated and no two
  game ids name the same game object.
\<close>

definition registry_ok :: "server \<Rightarrow> bool" where
  "registry_ok st =
     (\<forall>g r. sprintGames st g = Some r \<longrightarrow>
        r < next_ref st \<and> (\<forall>g'. sprintGames st g' = Some r \<longrightarrow> g' = g))"

text \<open>The players whose write the store accepts, in the order of issue.\<close>

fun landed :: "db_write list \<Rightarrow> 'a list \<Rightarrow> 'a list" where
  "landed writes [] = []"
| "landed writes (p # ps) =
     (if write_for writes = WriteFails then landed (tl writes) ps
      else p # landed (tl writes) ps)"

text \<open>
  The finish transition of the session \<open>g\<close>: an event that runs a pending timer whose
  callback is \<^verbatim>\<open>endSprintGame\<close> for \<open>g\<close> while \<open>g\<close> is registered. \<open>finishes\<close> counts
  the events of a run that are finish transitions of \<open>g\<close>, and \<open>created_ids\<close> lists the
  ids that the creations of a run generate.
\<close>

definition finishing :: "gameId \<Rightarrow> event \<Rightarrow> server \<Rightarrow> bool" where
  "finishing g ev st =
     (case ev of
        EvFire h now writes \<Rightarrow>
          (case timers st h of
             None \<Rightarrow> False
           | Some t \<Rightarrow> callback t = EndGame g \<and> sprintGames st g \<noteq> None)
      | _ \<Rightarrow> False)"

fun finishes :: "gameId \<Rightarrow> event list \<Rightarrow> server \<Rightarrow> nat" where
  "finishes g [] st = 0"
| "finishes g (ev # evs) st =
     (if finishing g ev st then 1 else 0) + finishes g evs (step ev st)"

fun created_ids :: "event list \<Rightarrow> gameId list" where
  "created_ids [] = []"
| "created_ids (EvCreate ts rnd # evs) = (''sprint_'' @ ts @ ''_'' @ rnd) # created_ids evs"
| "created_ids (ev # evs) = created_ids evs"

text \<open>
  What decides how often a session can still finish: the pending timers that tick or
  end the game \<open>g\<close>, and whether \<open>g\<close> is registered and waiting. A timer that ends a
  game runs once.
\<close>

definition live_handle :: "gameId \<Rightarrow> server \<Rightarrow> nat \<Rightarrow> bool" where
  "live_handle g st h =
     (case timers st h of
        None \<Rightarrow> False
      | Some t \<Rightarrow>
          (case callback t of
             CountdownTick g' r \<Rightarrow> g' = g
           | EndGame g' \<Rightarrow> g' = g
           | Cleanup g' \<Rightarrow> False))"

definition waiting_game :: "gameId \<Rightarrow> server \<Rightarrow> bool" where
  "waiting_game g st =
     (case sprintGames st g of None \<Rightarrow> False | Some r \<Rightarrow> status (heap st r) = Waiting)"

definition timers_ok :: "server \<Rightarrow> bool" where
  "timers_ok st = (\<forall>h t g. timers st h = Some t \<and> callback t = EndGame g \<longrightarrow> \<not> repeat t)"

definition one_finish :: "gameId \<Rightarrow> server \<Rightarrow> bool" where
  "one_finish g st =
     ((waiting_game g st \<longrightarrow> (\<forall>h. \<not> live_handle g st h))
      \<and> (\<forall>h h'. live_handle g st h \<and> live_handle g st h' \<longrightarrow> h = h'))"

definition no_finish :: "gameId \<Rightarrow> server \<Rightarrow> bool" where
  "no_finish g st = ((\<forall>h. \<not> live_handle g st h) \<and> \<not> waiting_game g st)"

text \<open>
  What one event does to the two conditions: \<open>one_finish\<close> stays, or turns into
  \<open>no_finish\<close> when the event is the finish transition; \<open>no_finish\<close> stays, and no
  finish transition happens under it.
\<close>

definition finish_step :: "gameId \<Rightarrow> event \<Rightarrow> server \<Rightarrow> bool" where
  "finish_step g ev st =
     ((one_finish g st \<longrightarrow>
         (if finishing g ev st then no_finish g (step ev st) else one_finish g (step ev st)))
      \<and> (no_finish g st \<longrightarrow> \<not> finishing g ev st \<and> no_finish g (step ev st)))"

text \<open>
  A run in which two creations generate the same id: the second game object takes the
  place of the first in the registry while the countdown of the first is still pending.
\<close>

definition collision_run :: "event list" where
  "collision_run =
     [EvCreate ''1'' ''a'',
      EvJoin ''s1'' (Some \<lparr>d_gameId = ''sprint_1_a'', d_username = None, d_caller = None\<rparr>),
      EvCreate ''1'' ''a'',
      EvJoin ''s2'' (Some \<lparr>d_gameId = ''sprint_1_a'', d_username = None, d_caller = None\<rparr>),
      EvFire 0 1000 [], EvFire 0 2000 [], EvFire 0 3000 [], EvFire 0 4000 [], EvFire 0 5000 [],
      EvFire 0 6000 [],
      EvFire 1 1500 [], EvFire 1 2500 [], EvFire 1 3500 [], EvFire 1 4500 [], EvFire 1 5500 [],
      EvFire 1 6500 [],
      EvFire 2 21000 [], EvFire 3 21500 []]"

section \<open>Properties of the primitives\<close>

lemmas prim_defs = emit_def console_error_def setTimer_def setInterval_def setTimeout_def
  clearInterval_def update_game_def

text \<open>The sort of \<^verbatim>\<open>endSprintGame\<close> is the library's stable insertion sort on the key \<open>- taps\<close>.\<close>

lemma sort_insert_insort: "sort_insert by_taps_desc x ys = insort_key (\<lambda>p. - taps p) x ys"
  by (induction ys) (auto simp: by_taps_desc_def)

lemma Array_sort_sort_key: "Array_sort by_taps_desc xs = sort_key (\<lambda>p. - taps p) xs"
  by (induction xs) (simp_all add: Array_sort_def sort_insert_insort)

lemma ranking_mset: "mset (Array_sort by_taps_desc xs) = mset xs"
  by (simp add: Array_sort_sort_key)

lemma ranking_sorted: "sorted_wrt (\<lambda>a b. taps b \<le> taps a) (Array_sort by_taps_desc xs)"
proof -
  have "sorted (map (\<lambda>p. - taps p) (sort_key (\<lambda>p. - taps p) xs))"
    by (rule sorted_sort_key)
  then show ?thesis
    by (simp add: Array_sort_sort_key sorted_map)
qed

lemma ranking_stable:
  "filter (\<lambda>p. taps p = k) (Array_sort by_taps_desc xs) = filter (\<lambda>p. taps p = k) xs"
proof -
  have "filter (\<lambda>p. - taps p = - k) (sort_key (\<lambda>p. - taps p) xs)
      = filter (\<lambda>p. - taps p = - k) xs"
    by (rule sort_key_stable)
  then show ?thesis by (simp add: Array_sort_sort_key)
qed

text \<open>The writes of \<^verbatim>\<open>endSprintGame\<close> touch the table and the error log only.\<close>

lemma save_results_fields:
  "heap (save_results g ws ps st) = heap st"
  "emitted (save_results g ws ps st) = emitted st"
  "timers (save_results g ws ps st) = timers st"
  "next_timer (save_results g ws ps st) = next_timer st"
  "sprintGames (save_results g ws ps st) = sprintGames st"
  "activePlayers (save_results g ws ps st) = activePlayers st"
  "rooms (save_results g ws ps st) = rooms st"
  "next_ref (save_results g ws ps st) = next_ref st"
  "users (save_results g ws ps st) = users st"
  by (induction ps arbitrary: ws st;
      simp add: db_run_insert_def console_error_def split: db_write.splits)+

text \<open>
  Wherever the store lets a row land, the table gains that row and keeps what it had;
  a write that fails leaves the table alone and adds a line to the error log.
\<close>

lemma land_row_mset: "mset (land_row k row rows) = add_mset row (mset rows)"
proof -
  have "mset (take (length rows - k) rows) + mset (drop (length rows - k) rows) = mset rows"
    by (simp only: mset_append [symmetric] append_take_drop_id)
  then show ?thesis by (simp add: land_row_def)
qed

lemma land_row_length: "length (land_row k row rows) = Suc (length rows)"
  by (simp add: land_row_def)

lemma db_run_insert_table:
  "mset (sprint_results (db_run_insert w row st)) =
     (if w = WriteFails then mset (sprint_results st) else add_mset row (mset (sprint_results st)))"
  by (cases w) (simp_all add: db_run_insert_def console_error_def land_row_mset)

lemma save_results_table:
  "mset (sprint_results (save_results g ws ps st)) =
     mset (sprint_results st)
       + mset (map (\<lambda>p. \<lparr>game_id = g, user_id = None, row_taps = taps p\<rparr>) (landed ws ps))"
proof (induction ps arbitrary: ws st)
  case Nil
  then show ?case by simp
next
  case (Cons p ps)
  show ?case
    by (cases "write_for ws = WriteFails") (simp_all add: Cons.IH db_run_insert_table)
qed

lemma landed_all: "WriteFails \<notin> set ws \<Longrightarrow> landed ws ps = ps"
proof (induction ps arbitrary: ws)
  case Nil
  then show ?case by simp
next
  case (Cons p ps)
  have first: "write_for ws \<noteq> WriteFails"
    using Cons.prems by (cases ws) (auto simp add: write_for_def)
  have rest: "WriteFails \<notin> set (tl ws)"
    using Cons.prems by (cases ws) auto
  show ?case using first Cons.IH [OF rest] by simp
qed

lemma save_results_attempts:
  "length (sprint_results (save_results g ws ps st)) + length (console_errors (save_results g ws ps st))
   = length (sprint_results st) + length (console_errors st) + length ps"
  by (induction ps arbitrary: ws st)
    (simp_all add: db_run_insert_def console_error_def land_row_length split: db_write.splits)

lemma endSprintGame_table:
  assumes "sprintGames st g = Some r"
  shows "mset (sprint_results (endSprintGame g ws st)) =
     mset (sprint_results st)
       + mset (map (\<lambda>p. \<lparr>game_id = g, user_id = None, row_taps = taps p\<rparr>)
           (landed ws (Map_values (players (heap st r)))))"
  using assms
  by (simp add: endSprintGame_def Let_def prim_defs save_results_fields save_results_table)

section \<open>The finish transition\<close>

text \<open>
  C1. When \<^verbatim>\<open>endSprintGame\<close> runs for a registered game, the status becomes finished;
  the ranking that is broadcast holds exactly the players of the game at that moment,
  in descending order of taps, players with equal taps in the order of the players Map,
  which is the order in which they joined; the winner is the first entry of the
  ranking, and there is none when there is no player; every player gets one write,
  which either adds a row or is logged: the table gains, in whatever order the store
  commits them, exactly one row for each player whose write the store accepts, and so
  one row per player when no write fails; status and broadcast are the same whatever
  the store does with the writes.
\<close>

theorem endSprintGame_finish:
  assumes reg: "sprintGames st gameId = Some r"
    and ps: "ps = Map_values (players (heap st r))"
    and rk: "ranking = Array_sort by_taps_desc ps"
    and st': "st' = endSprintGame gameId writes st"
  shows "status (heap st' r) = Finished
    \<and> emitted st' = emitted st @ [(ToRoom gameId, GameEnded ranking (first_elem ranking))]
    \<and> mset ranking = mset ps
    \<and> sorted_wrt (\<lambda>a b. taps b \<le> taps a) ranking
    \<and> (\<forall>k. filter (\<lambda>p. taps p = k) ranking = filter (\<lambda>p. taps p = k) ps)
    \<and> first_elem ranking = (if ps = [] then None else Some (hd ranking))
    \<and> length (sprint_results st') + length (console_errors st')
        = length (sprint_results st) + length (console_errors st) + length ps
    \<and> mset (sprint_results st') = mset (sprint_results st)
         + mset (map (\<lambda>p. \<lparr>game_id = gameId, user_id = None, row_taps = taps p\<rparr>)
             (landed writes ps))
    \<and> (WriteFails \<notin> set writes \<longrightarrow>
         mset (sprint_results st') = mset (sprint_results st)
           + mset (map (\<lambda>p. \<lparr>game_id = gameId, user_id = None, row_taps = taps p\<rparr>) ps))"
proof -
  have a: "status (heap st' r) = Finished"
    using reg by (simp add: st' endSprintGame_def Let_def prim_defs save_results_fields)
  have b: "emitted st' = emitted st @ [(ToRoom gameId, GameEnded ranking (first_elem ranking))]"
    using reg by (simp add: st' ps rk endSprintGame_def Let_def prim_defs save_results_fields)
  have c: "mset ranking = mset ps"
    by (simp add: rk ranking_mset)
  have d: "sorted_wrt (\<lambda>a b. taps b \<le> taps a) ranking"
    by (simp add: rk ranking_sorted)
  have e: "\<forall>k. filter (\<lambda>p. taps p = k) ranking = filter (\<lambda>p. taps p = k) ps"
    by (simp add: rk ranking_stable)
  have f: "first_elem ranking = (if ps = [] then None else Some (hd ranking))"
  proof (cases ranking)
    case Nil
    then have "mset ps = {#}" using c by simp
    then show ?thesis using Nil by (simp add: first_elem_def)
  next
    case (Cons x xs)
    then have "mset ps \<noteq> {#}" using c by auto
    then show ?thesis using Cons by (auto simp add: first_elem_def)
  qed
  have g: "length (sprint_results st') + length (console_errors st')
        = length (sprint_results st) + length (console_errors st) + length ps"
    using reg save_results_attempts [of gameId writes ps
        "update_game r (\<lambda>game. game\<lparr>status := Finished\<rparr>) st"]
    by (simp add: st' ps endSprintGame_def Let_def prim_defs save_results_fields)
  have h: "mset (sprint_results st') = mset (sprint_results st)
         + mset (map (\<lambda>p. \<lparr>game_id = gameId, user_id = None, row_taps = taps p\<rparr>)
             (landed writes ps))"
    unfolding st' ps by (rule endSprintGame_table [OF reg])
  have i: "WriteFails \<notin> set writes \<longrightarrow>
         mset (sprint_results st') = mset (sprint_results st)
           + mset (map (\<lambda>p. \<lparr>game_id = gameId, user_id = None, row_taps = taps p\<rparr>) ps)"
    using h by (simp add: landed_all)
  from a b c d e f g h i show ?thesis by blast
qed

text \<open>
  On the example game: bob (7) is ranked first and wins; alice and carol (3 each) follow
  in join order. With bob's write failing the table gains the two rows of alice and
  carol, and status and broadcast are as before; with no write failing, and bob's row
  committed before alice's, it gains the three rows.
\<close>

theorem endSprintGame_finish_witness:
  "sprintGames (demo_server Active) ''g1'' = Some 0
   \<and> WriteFails \<notin> set [WriteLands 0, WriteLands 1, WriteLands 0]
   \<and> status (heap (endSprintGame ''g1'' [WriteLands 0, WriteFails] (demo_server Active)) 0) = Finished
   \<and> emitted (endSprintGame ''g1'' [WriteLands 0, WriteFails] (demo_server Active))
       = [(ToRoom ''g1'', GameEnded [bob, alice, carol] (Some bob))]
   \<and> mset (sprint_results (endSprintGame ''g1'' [WriteLands 0, WriteFails] (demo_server Active)))
       = {#\<lparr>game_id = ''g1'', user_id = None, row_taps = 3\<rparr>,
           \<lparr>game_id = ''g1'', user_id = None, row_taps = 3\<rparr>#}
   \<and> mset (sprint_results
         (endSprintGame ''g1'' [WriteLands 0, WriteLands 1, WriteLands 0] (demo_server Active)))
       = {#\<lparr>game_id = ''g1'', user_id = None, row_taps = 3\<rparr>,
           \<lparr>game_id = ''g1'', user_id = None, row_taps = 7\<rparr>,
           \<lparr>game_id = ''g1'', user_id = None, row_taps = 3\<rparr>#}"
proof -
  have reg: "sprintGames (demo_server Active) ''g1'' = Some 0"
    by (simp add: demo_server_def)
  have ps: "Map_values (players (heap (demo_server Active) 0)) = [alice, bob, carol]"
    by (simp add: demo_server_def demo_game_def Map_values_def)
  have rk: "Array_sort by_taps_desc [alice, bob, carol] = [bob, alice, carol]"
    by (simp add: Array_sort_def by_taps_desc_def alice_def bob_def carol_def)
  have em: "emitted (demo_server Active) = []" "sprint_results (demo_server Active) = []"
    by (simp_all add: demo_server_def)
  have ok: "WriteFails \<notin> set [WriteLands 0, WriteLands 1, WriteLands 0]"
    by simp
  have ld: "landed [WriteLands 0, WriteFails] [alice, bob, carol] = [alice, carol]"
    by (simp add: write_for_def)
  note F = endSprintGame_finish [OF reg ps [symmetric] rk [symmetric] refl,
      of "[WriteLands 0, WriteFails]"]
  note A = endSprintGame_finish [OF reg ps [symmetric] rk [symmetric] refl,
      of "[WriteLands 0, WriteLands 1, WriteLands 0]"]
  have f1: "status (heap (endSprintGame ''g1'' [WriteLands 0, WriteFails] (demo_server Active)) 0)
      = Finished"
    by (rule F [THEN conjunct1])
  have f2: "emitted (endSprintGame ''g1'' [WriteLands 0, WriteFails] (demo_server Active))
       = [(ToRoom ''g1'', GameEnded [bob, alice, carol] (Some bob))]"
    using F [THEN conjunct2, THEN conjunct1] by (simp add: em first_elem_def)
  have f3: "mset (sprint_results (endSprintGame ''g1'' [WriteLands 0, WriteFails] (demo_server Active)))
       = {#\<lparr>game_id = ''g1'', user_id = None, row_taps = 3\<rparr>,
           \<lparr>game_id = ''g1'', user_id = None, row_taps = 3\<rparr>#}"
    using F [THEN conjunct2, THEN conjunct2, THEN conjunct2, THEN conjunct2, THEN conjunct2,
        THEN conjunct2, THEN conjunct2, THEN conjunct1]
    by (simp add: em write_for_def alice_def bob_def carol_def)
  have a3: "mset (sprint_results
         (endSprintGame ''g1'' [WriteLands 0, WriteLands 1, WriteLands 0] (demo_server Active)))
       = {#\<lparr>game_id = ''g1'', user_id = None, row_taps = 3\<rparr>,
           \<lparr>game_id = ''g1'', user_id = None, row_taps = 7\<rparr>,
           \<lparr>game_id = ''g1'', user_id = None, row_taps = 3\<rparr>#}"
    using A [THEN conjunct2, THEN conjunct2, THEN conjunct2, THEN conjunct2, THEN conjunct2,
        THEN conjunct2, THEN conjunct2, THEN conjunct2, rule_format, OF ok]
    by (simp add: em alice_def bob_def carol_def)
  from reg ok f1 f2 f3 a3 show ?thesis by (intro conjI)
qed

text \<open>
  The order of the table is the store's: with bob's row committed before alice's, the
  rows of the example game stand in the table as 7, 3, 3.
\<close>

lemma endSprintGame_commit_order:
  "map row_taps (sprint_results
      (endSprintGame ''g1'' [WriteLands 0, WriteLands 1, WriteLands 0] (demo_server Active)))
     = [7, 3, 3]"
  by (simp add: endSprintGame_def Let_def prim_defs demo_server_def demo_game_def Map_values_def
      db_run_insert_def land_row_def write_for_def alice_def bob_def carol_def)

section \<open>Frame properties of the handlers\<close>

text \<open>Which parts of the server a handler leaves alone.\<close>

lemma endSprintGame_frame:
  "sprintGames (endSprintGame g ws st) = sprintGames st"
  "next_ref (endSprintGame g ws st) = next_ref st"
  "activePlayers (endSprintGame g ws st) = activePlayers st"
  "users (endSprintGame g ws st) = users st"
  "rooms (endSprintGame g ws st) = rooms st"
  by (simp_all add: endSprintGame_def Let_def prim_defs save_results_fields split: option.splits)

lemma startSprintGame_frame:
  "sprintGames (startSprintGame g now st) = sprintGames st"
  "next_ref (startSprintGame g now st) = next_ref st"
  "activePlayers (startSprintGame g now st) = activePlayers st"
  "sprint_results (startSprintGame g now st) = sprint_results st"
  "users (startSprintGame g now st) = users st"
  "rooms (startSprintGame g now st) = rooms st"
  "console_errors (startSprintGame g now st) = console_errors st"
  by (simp_all add: startSprintGame_def Let_def prim_defs split: option.splits)

lemma countdownTick_frame:
  "sprintGames (countdownTick h g r now st) = sprintGames st"
  "next_ref (countdownTick h g r now st) = next_ref st"
  "activePlayers (countdownTick h g r now st) = activePlayers st"
  "sprint_results (countdownTick h g r now st) = sprint_results st"
  "users (countdownTick h g r now st) = users st"
  "rooms (countdownTick h g r now st) = rooms st"
  "console_errors (countdownTick h g r now st) = console_errors st"
  by (simp_all add: countdownTick_def Let_def startSprintGame_frame prim_defs)

lemma startSprintCountdown_frame:
  "sprintGames (startSprintCountdown g st) = sprintGames st"
  "next_ref (startSprintCountdown g st) = next_ref st"
  "activePlayers (startSprintCountdown g st) = activePlayers st"
  "sprint_results (startSprintCountdown g st) = sprint_results st"
  "users (startSprintCountdown g st) = users st"
  "rooms (startSprintCountdown g st) = rooms st"
  "console_errors (startSprintCountdown g st) = console_errors st"
  "emitted (startSprintCountdown g st) = emitted st"
  by (simp_all add: startSprintCountdown_def Let_def prim_defs split: option.splits)

lemma join_sprint_frame:
  "sprintGames (join_sprint sid d st) = sprintGames st"
  "next_ref (join_sprint sid d st) = next_ref st"
  "sprint_results (join_sprint sid d st) = sprint_results st"
  "users (join_sprint sid d st) = users st"
  by (simp_all add: join_sprint_def Let_def startSprintCountdown_frame prim_defs split: option.splits)

lemma disconnect_frame:
  "sprintGames (disconnect sid st) = sprintGames st"
  "next_ref (disconnect sid st) = next_ref st"
  "sprint_results (disconnect sid st) = sprint_results st"
  "users (disconnect sid st) = users st"
  "rooms (disconnect sid st) = rooms st"
  "timers (disconnect sid st) = timers st"
  "next_timer (disconnect sid st) = next_timer st"
  "console_errors (disconnect sid st) = console_errors st"
  by (simp_all add: disconnect_def Let_def prim_defs split: option.splits)

section \<open>Taps\<close>

lemma tap_frame:
  "sprintGames (tap sid d st) = sprintGames st"
  "next_ref (tap sid d st) = next_ref st"
  "activePlayers (tap sid d st) = activePlayers st"
  "sprint_results (tap sid d st) = sprint_results st"
  "users (tap sid d st) = users st"
  "rooms (tap sid d st) = rooms st"
  "timers (tap sid d st) = timers st"
  "next_timer (tap sid d st) = next_timer st"
  by (simp_all add: tap_def Let_def prim_defs split: option.splits)

lemma Map_get_set: "Map_get (Map_set k v m) k' = (if k' = k then Some v else Map_get m k')"
  by (simp add: Map_get_def Map_set_def update_conv')

lemma Map_keys_set_present:
  "Map_get m k \<noteq> None \<Longrightarrow> map fst (Map_set k v m) = map fst m"
  unfolding Map_get_def Map_set_def
  by (induction m) (auto split: if_splits)

lemma tap_accept:
  assumes "sprintGames st g = Some r" "status (heap st r) = Active"
    "Map_get (players (heap st r)) sid = Some p"
  shows "tap sid (Some \<lparr>t_gameId = g\<rparr>) st =
     emit (ToRoom g) (TapUpdate sid (username p) (taps p + 1))
       (update_game r (\<lambda>game. game\<lparr>players := Map_set sid (p\<lparr>taps := taps p + 1\<rparr>) (players game)\<rparr>) st)"
  using assms by (simp add: tap_def Let_def)

lemma tap_ignore:
  assumes "\<not> tap_accepted st sid g"
  shows "tap sid (Some \<lparr>t_gameId = g\<rparr>) st = st"
  using assms by (auto simp add: tap_def tap_accepted_def split: option.splits)

text \<open>What one tap event does to the entry of \<open>sid\<close> in the game object \<open>r\<close>.\<close>

lemma tap_player:
  assumes reg: "sprintGames st g = Some r"
    and inj: "\<forall>g'. sprintGames st g' = Some r \<longrightarrow> g' = g"
    and p: "Map_get (players (heap st r)) sid = Some p"
  shows "Map_get (players (heap (tap s d st) r)) sid =
     Some (p\<lparr>taps := taps p +
        (if s = sid \<and> d = Some \<lparr>t_gameId = g\<rparr> \<and> tap_accepted st sid g then 1 else 0)\<rparr>)"
proof (cases d)
  case None
  then show ?thesis using p by (simp add: tap_def console_error_def)
next
  case (Some td)
  obtain g' where td: "td = \<lparr>t_gameId = g'\<rparr>" by (cases td) simp
  show ?thesis
  proof (cases "tap_accepted st s g'")
    case False
    then have same: "tap s d st = st" using Some td tap_ignore by simp
    have "\<not> (s = sid \<and> g' = g \<and> tap_accepted st sid g)" using False by auto
    then show ?thesis using same p Some td by auto
  next
    case True
    then obtain r' q where r': "sprintGames st g' = Some r'" "status (heap st r') = Active"
      "Map_get (players (heap st r')) s = Some q"
      by (auto simp: tap_accepted_def split: option.splits)
    note eq = tap_accept [OF r']
    show ?thesis
    proof (cases "r' = r")
      case False
      then show ?thesis using eq p Some td r' reg by (auto simp add: prim_defs)
    next
      case same: True
      then have g': "g' = g" using inj r' by simp
      show ?thesis
      proof (cases "s = sid")
        case True
        then have "q = p" using r' p same by simp
        then show ?thesis using eq Some td g' True same \<open>tap_accepted st s g'\<close>
          by (simp add: prim_defs Map_get_set)
      next
        case False
        then show ?thesis using eq Some td g' same p
          by (simp add: prim_defs Map_get_set)
      qed
    qed
  qed
qed

lemma run_taps_player:
  assumes "sprintGames st g = Some r"
    and "\<forall>g'. sprintGames st g' = Some r \<longrightarrow> g' = g"
    and "Map_get (players (heap st r)) sid = Some p"
  shows "Map_get (players (heap (run_taps evs st) r)) sid =
     Some (p\<lparr>taps := taps p + int (accepted_taps sid g evs st)\<rparr>)"
  using assms
proof (induction evs arbitrary: st p)
  case Nil
  show ?case using Nil.prems(3) by simp
next
  case (Cons ev evs)
  obtain s d where ev: "ev = (s, d)" by (cases ev)
  define n :: nat where
    "n = (if s = sid \<and> d = Some \<lparr>t_gameId = g\<rparr> \<and> tap_accepted st sid g then 1 else 0)"
  define st1 where "st1 = tap s d st"
  define p1 where "p1 = p\<lparr>taps := taps p + int n\<rparr>"
  have one: "Map_get (players (heap st1 r)) sid = Some p1"
    unfolding st1_def p1_def n_def
    using tap_player [OF Cons.prems, of s d] by simp
  have reg1: "sprintGames st1 g = Some r"
    unfolding st1_def using Cons.prems(1) by (simp only: tap_frame)
  have inj1: "\<forall>g'. sprintGames st1 g' = Some r \<longrightarrow> g' = g"
    unfolding st1_def using Cons.prems(2) by (simp only: tap_frame)
  have "Map_get (players (heap (run_taps evs st1) r)) sid =
     Some (p1\<lparr>taps := taps p1 + int (accepted_taps sid g evs st1)\<rparr>)"
    using reg1 inj1 one by (rule Cons.IH)
  moreover have "accepted_taps sid g (ev # evs) st = n + accepted_taps sid g evs st1"
    unfolding ev n_def st1_def by simp
  moreover have "run_taps (ev # evs) st = run_taps evs st1"
    unfolding ev st1_def by simp
  ultimately show ?case
    by (simp add: p1_def)
qed

lemma demo_server_g1:
  "sprintGames (demo_server s) ''g1'' = Some 0"
  "heap (demo_server s) 0 = demo_game s"
  "\<forall>g'. sprintGames (demo_server s) g' = Some 0 \<longrightarrow> g' = ''g1''"
  by (simp_all add: demo_server_def)

lemma demo_game_fields:
  "status (demo_game s) = s"
  "players (demo_game s) = [(''s1'', alice), (''s2'', bob), (''s3'', carol)]"
  by (simp_all add: demo_game_def)

text \<open>
  C2. A tap on a registered game whose status is active, sent by a socket that is a key
  of the players Map, adds exactly 1 to the taps of that player, leaves every other
  player and the order of the Map as they are, and broadcasts the new count to the room;
  any other tap (unknown game, status not active, unknown socket) returns the server
  state unchanged. Hence, over any sequence of tap events, the taps of a player grow by
  the number of accepted taps of that socket on that game; a player joins with 0 taps,
  so the count is then that number. The game id names one game object, as it does in
  every state the server reaches.
\<close>

theorem tap_event:
  "(\<forall>r p. sprintGames st g = Some r \<and> status (heap st r) = Active
           \<and> Map_get (players (heap st r)) sid = Some p \<longrightarrow>
       Map_get (players (heap (tap sid (Some \<lparr>t_gameId = g\<rparr>) st) r)) sid
         = Some (p\<lparr>taps := taps p + 1\<rparr>)
       \<and> emitted (tap sid (Some \<lparr>t_gameId = g\<rparr>) st)
         = emitted st @ [(ToRoom g, TapUpdate sid (username p) (taps p + 1))]
       \<and> (\<forall>s. s \<noteq> sid \<longrightarrow> Map_get (players (heap (tap sid (Some \<lparr>t_gameId = g\<rparr>) st) r)) s
             = Map_get (players (heap st r)) s)
       \<and> map fst (players (heap (tap sid (Some \<lparr>t_gameId = g\<rparr>) st) r))
         = map fst (players (heap st r)))
   \<and> (\<not> tap_accepted st sid g \<longrightarrow> tap sid (Some \<lparr>t_gameId = g\<rparr>) st = st)
   \<and> (\<forall>r p evs. sprintGames st g = Some r \<and> (\<forall>g'. sprintGames st g' = Some r \<longrightarrow> g' = g)
           \<and> Map_get (players (heap st r)) sid = Some p \<longrightarrow>
       Map_get (players (heap (run_taps evs st) r)) sid
         = Some (p\<lparr>taps := taps p + int (accepted_taps sid g evs st)\<rparr>))"
proof (intro conjI allI impI)
  fix r p
  assume h: "sprintGames st g = Some r \<and> status (heap st r) = Active
           \<and> Map_get (players (heap st r)) sid = Some p"
  then have eq: "tap sid (Some \<lparr>t_gameId = g\<rparr>) st =
     emit (ToRoom g) (TapUpdate sid (username p) (taps p + 1))
       (update_game r (\<lambda>game. game\<lparr>players := Map_set sid (p\<lparr>taps := taps p + 1\<rparr>) (players game)\<rparr>) st)"
    using tap_accept by simp
  show "Map_get (players (heap (tap sid (Some \<lparr>t_gameId = g\<rparr>) st) r)) sid
         = Some (p\<lparr>taps := taps p + 1\<rparr>)"
    by (simp add: eq prim_defs Map_get_set)
  show "emitted (tap sid (Some \<lparr>t_gameId = g\<rparr>) st)
         = emitted st @ [(ToRoom g, TapUpdate sid (username p) (taps p + 1))]"
    by (simp add: eq prim_defs)
  show "map fst (players (heap (tap sid (Some \<lparr>t_gameId = g\<rparr>) st) r))
         = map fst (players (heap st r))"
    using h by (simp add: eq prim_defs Map_keys_set_present)
  fix s assume "s \<noteq> sid"
  then show "Map_get (players (heap (tap sid (Some \<lparr>t_gameId = g\<rparr>) st) r)) s
             = Map_get (players (heap st r)) s"
    by (simp add: eq prim_defs Map_get_set)
next
  assume "\<not> tap_accepted st sid g"
  then show "tap sid (Some \<lparr>t_gameId = g\<rparr>) st = st" by (rule tap_ignore)
next
  fix r p evs
  assume "sprintGames st g = Some r \<and> (\<forall>g'. sprintGames st g' = Some r \<longrightarrow> g' = g)
           \<and> Map_get (players (heap st r)) sid = Some p"
  then show "Map_get (players (heap (run_taps evs st) r)) sid
         = Some (p\<lparr>taps := taps p + int (accepted_taps sid g evs st)\<rparr>)"
    by (elim conjE) (rule run_taps_player)
qed


theorem tap_event_witness:
  "sprintGames (demo_server Active) ''g1'' = Some 0
   \<and> status (heap (demo_server Active) 0) = Active
   \<and> Map_get (players (heap (demo_server Active) 0)) ''s2'' = Some bob
   \<and> \<not> tap_accepted (demo_server Finished) ''s2'' ''g1''
   \<and> Map_get (players (heap (tap ''s2'' (Some \<lparr>t_gameId = ''g1''\<rparr>) (demo_server Active)) 0)) ''s2''
       = Some (bob\<lparr>taps := 8\<rparr>)
   \<and> tap ''s2'' (Some \<lparr>t_gameId = ''g1''\<rparr>) (demo_server Finished) = demo_server Finished
   \<and> Map_get (players (heap (run_taps
         [(''s2'', Some \<lparr>t_gameId = ''g1''\<rparr>), (''s1'', Some \<lparr>t_gameId = ''g1''\<rparr>),
          (''s2'', Some \<lparr>t_gameId = ''g9''\<rparr>), (''s9'', Some \<lparr>t_gameId = ''g1''\<rparr>),
          (''s2'', None), (''s2'', Some \<lparr>t_gameId = ''g1''\<rparr>)] (demo_server Active)) 0)) ''s2''
       = Some (bob\<lparr>taps := 9\<rparr>)"
proof -
  let ?evs = "[(''s2'', Some \<lparr>t_gameId = ''g1''\<rparr>), (''s1'', Some \<lparr>t_gameId = ''g1''\<rparr>),
          (''s2'', Some \<lparr>t_gameId = ''g9''\<rparr>), (''s9'', Some \<lparr>t_gameId = ''g1''\<rparr>),
          (''s2'', None), (''s2'', Some \<lparr>t_gameId = ''g1''\<rparr>)]"
  have reg: "sprintGames (demo_server Active) ''g1'' = Some 0"
    by (rule demo_server_g1)
  have inj: "\<forall>g'. sprintGames (demo_server Active) g' = Some 0 \<longrightarrow> g' = ''g1''"
    by (rule demo_server_g1)
  have p: "Map_get (players (heap (demo_server Active) 0)) ''s2'' = Some bob"
    by (simp add: demo_server_g1 demo_game_fields Map_get_def)
  have st: "status (heap (demo_server Active) 0) = Active"
    by (simp add: demo_server_g1 demo_game_fields)
  have no: "\<not> tap_accepted (demo_server Finished) ''s2'' ''g1''"
    by (simp add: tap_accepted_def demo_server_g1 demo_game_fields)
  have cnt: "accepted_taps ''s2'' ''g1'' ?evs (demo_server Active) = 2"
    by (simp add: tap_accepted_def tap_def prim_defs demo_server_def demo_game_def
        Map_get_def Map_set_def bob_def alice_def carol_def)
  have b: "taps bob = 7" by (simp add: bob_def)
  note T = tap_event [of "demo_server Active" "''g1''" "''s2''"]
  note F = tap_event [of "demo_server Finished" "''g1''" "''s2''"]
  have one: "Map_get (players (heap (tap ''s2'' (Some \<lparr>t_gameId = ''g1''\<rparr>) (demo_server Active)) 0)) ''s2''
       = Some (bob\<lparr>taps := 8\<rparr>)"
    using T [THEN conjunct1, rule_format, OF conjI [OF reg conjI [OF st p]]] b by simp
  have ign: "tap ''s2'' (Some \<lparr>t_gameId = ''g1''\<rparr>) (demo_server Finished) = demo_server Finished"
    using F [THEN conjunct2, THEN conjunct1, rule_format, OF no] .
  have many: "Map_get (players (heap (run_taps ?evs (demo_server Active)) 0)) ''s2''
       = Some (bob\<lparr>taps := 9\<rparr>)"
    using T [THEN conjunct2, THEN conjunct2, rule_format, OF conjI [OF reg conjI [OF inj p]], of ?evs]
    by (simp only: cnt b) (simp del: run_taps.simps)
  from reg st p no one ign many show ?thesis by (intro conjI)
qed

section \<open>Joining\<close>

lemma Map_set_size: "Suc 0 \<le> Map_size (Map_set k v m)"
  unfolding Map_size_def Map_set_def by (induction m) auto

lemma Map_values_set_new:
  "Map_get m k = None \<Longrightarrow> Map_values (Map_set k v m) = Map_values m @ [v]"
  unfolding Map_get_def Map_set_def Map_values_def
  by (induction m) (auto split: if_splits)

lemma join_not_found:
  assumes "sprintGames st (d_gameId d) = None"
  shows "join_sprint sid (Some d) st = emit (ToSocket sid) (ErrorEv ''Game not found'') st"
  using assms by (simp add: join_sprint_def)

lemma join_rejected:
  assumes "sprintGames st (d_gameId d) = Some r"
    and "status (heap st r) = Active \<or> status (heap st r) = Finished"
  shows "join_sprint sid (Some d) st =
     emit (ToSocket sid) (ErrorEv ''Game already started or finished'') st"
  using assms by (auto simp add: join_sprint_def)

lemma join_countdown:
  assumes "sprintGames st (d_gameId d) = Some r" and "status (heap st r) = Countdown"
  shows "join_sprint sid (Some d) st = joined sid d r st"
  using assms by (simp add: join_sprint_def joined_def Let_def prim_defs)

lemma join_waiting:
  assumes "sprintGames st (d_gameId d) = Some r" and "status (heap st r) = Waiting"
  shows "join_sprint sid (Some d) st = startSprintCountdown (d_gameId d) (joined sid d r st)"
  using assms by (simp add: join_sprint_def joined_def Let_def prim_defs Map_set_size)

lemma joined_fields:
  "sprintGames (joined sid d r st) = sprintGames st"
  "heap (joined sid d r st) = (heap st)(r := (heap st r)\<lparr>players :=
      Map_set sid \<lparr>pid = sid, username = display_name sid (d_username d),
                   taps = 0, connected = True\<rparr> (players (heap st r))\<rparr>)"
  "activePlayers (joined sid d r st) = (activePlayers st)(sid \<mapsto> (d_gameId d, d_username d))"
  "rooms (joined sid d r st) = (rooms st)(d_gameId d := insert sid (rooms st (d_gameId d)))"
  "emitted (joined sid d r st) = emitted st @ [(ToRoom (d_gameId d),
      PlayersUpdated (Map_values (Map_set sid \<lparr>pid = sid, username = display_name sid (d_username d),
                   taps = 0, connected = True\<rparr> (players (heap st r)))) (status (heap st r)))]"
  "timers (joined sid d r st) = timers st"
  "next_timer (joined sid d r st) = next_timer st"
  by (simp_all add: joined_def prim_defs)

lemma startSprintCountdown_registered:
  assumes "sprintGames st g = Some r"
  shows "heap (startSprintCountdown g st) = (heap st)(r := (heap st r)\<lparr>status := Countdown, countdown := 5\<rparr>)"
    "timers (startSprintCountdown g st) =
       (timers st)(next_timer st \<mapsto> \<lparr>delay = 1000, repeat = True, callback = CountdownTick g r\<rparr>)"
    "next_timer (startSprintCountdown g st) = Suc (next_timer st)"
  using assms by (simp_all add: startSprintCountdown_def Let_def prim_defs)

text \<open>
  C3. A join names a game id. With an unknown id the socket gets the error
  \<^verbatim>\<open>Game not found\<close> and nothing else changes. With a game whose status is active or
  finished the socket gets \<^verbatim>\<open>Game already started or finished\<close>, and neither the
  game objects nor the tracker change. With a game that is waiting or in countdown the
  socket becomes a player with 0 taps (a new socket at the end of the Map, the other
  players untouched), is tracked, sits in the room of the game, and the roster with the
  status is sent to that room; a join on a waiting game moves it to countdown with the
  counter at 5 and the 1-second interval set, a join during the countdown leaves
  status, counter and timers alone.
\<close>

theorem join_event:
  assumes st': "st' = join_sprint sid (Some d) st"
    and new: "new = \<lparr>pid = sid, username = display_name sid (d_username d), taps = 0, connected = True\<rparr>"
  shows
   "(sprintGames st (d_gameId d) = None \<longrightarrow>
       st' = emit (ToSocket sid) (ErrorEv ''Game not found'') st)
    \<and> (\<forall>r. sprintGames st (d_gameId d) = Some r
            \<and> (status (heap st r) = Active \<or> status (heap st r) = Finished) \<longrightarrow>
         st' = emit (ToSocket sid) (ErrorEv ''Game already started or finished'') st
         \<and> heap st' = heap st \<and> activePlayers st' = activePlayers st)
    \<and> (\<forall>r. sprintGames st (d_gameId d) = Some r
            \<and> (status (heap st r) = Waiting \<or> status (heap st r) = Countdown) \<longrightarrow>
         Map_get (players (heap st' r)) sid = Some new
         \<and> (\<forall>s. s \<noteq> sid \<longrightarrow> Map_get (players (heap st' r)) s = Map_get (players (heap st r)) s)
         \<and> (Map_get (players (heap st r)) sid = None \<longrightarrow>
               Map_values (players (heap st' r)) = Map_values (players (heap st r)) @ [new])
         \<and> activePlayers st' sid = Some (d_gameId d, d_username d)
         \<and> sid \<in> rooms st' (d_gameId d)
         \<and> emitted st' = emitted st @ [(ToRoom (d_gameId d),
               PlayersUpdated (Map_values (players (heap st' r))) (status (heap st r)))]
         \<and> (status (heap st r) = Waiting \<longrightarrow>
               status (heap st' r) = Countdown \<and> countdown (heap st' r) = 5
               \<and> timers st' = (timers st)(next_timer st \<mapsto>
                    \<lparr>delay = 1000, repeat = True, callback = CountdownTick (d_gameId d) r\<rparr>))
         \<and> (status (heap st r) = Countdown \<longrightarrow>
               status (heap st' r) = Countdown \<and> countdown (heap st' r) = countdown (heap st r)
               \<and> timers st' = timers st))"
proof (intro conjI allI impI)
  assume "sprintGames st (d_gameId d) = None"
  then show "st' = emit (ToSocket sid) (ErrorEv ''Game not found'') st"
    by (simp add: st' join_not_found)
next
  fix r
  assume h: "sprintGames st (d_gameId d) = Some r
            \<and> (status (heap st r) = Active \<or> status (heap st r) = Finished)"
  then show rej: "st' = emit (ToSocket sid) (ErrorEv ''Game already started or finished'') st"
    using join_rejected [of st d r sid] by (simp add: st')
  show "heap st' = heap st" "activePlayers st' = activePlayers st"
    by (simp_all add: rej emit_def)
next
  fix r
  assume h: "sprintGames st (d_gameId d) = Some r
            \<and> (status (heap st r) = Waiting \<or> status (heap st r) = Countdown)"
  then have reg: "sprintGames st (d_gameId d) = Some r" by simp
  have regj: "sprintGames (joined sid d r st) (d_gameId d) = Some r"
    by (simp add: joined_fields reg)
  have eq: "st' = (if status (heap st r) = Waiting
                  then startSprintCountdown (d_gameId d) (joined sid d r st)
                  else joined sid d r st)"
    using h join_waiting [of st d r sid] join_countdown [of st d r sid] by (auto simp add: st')
  have pl: "players (heap st' r) = Map_set sid new (players (heap st r))"
    by (simp add: eq startSprintCountdown_registered [OF regj] joined_fields new)
  show "Map_get (players (heap st' r)) sid = Some new"
    by (simp add: pl Map_get_set)
  show "activePlayers st' sid = Some (d_gameId d, d_username d)"
    by (simp add: eq startSprintCountdown_frame joined_fields)
  show "sid \<in> rooms st' (d_gameId d)"
    by (simp add: eq startSprintCountdown_frame joined_fields)
  show "emitted st' = emitted st @ [(ToRoom (d_gameId d),
               PlayersUpdated (Map_values (players (heap st' r))) (status (heap st r)))]"
    by (simp add: pl) (simp add: eq startSprintCountdown_frame joined_fields new)
  {
    fix s assume "s \<noteq> sid"
    then show "Map_get (players (heap st' r)) s = Map_get (players (heap st r)) s"
      by (simp add: pl Map_get_set)
  next
    assume "Map_get (players (heap st r)) sid = None"
    then show "Map_values (players (heap st' r)) = Map_values (players (heap st r)) @ [new]"
      by (simp add: pl Map_values_set_new)
  next
    assume w: "status (heap st r) = Waiting"
    show "status (heap st' r) = Countdown" "countdown (heap st' r) = 5"
      "timers st' = (timers st)(next_timer st \<mapsto>
                    \<lparr>delay = 1000, repeat = True, callback = CountdownTick (d_gameId d) r\<rparr>)"
      by (simp_all add: eq w startSprintCountdown_registered [OF regj] joined_fields)
  next
    assume c: "status (heap st r) = Countdown"
    show "status (heap st' r) = Countdown" "countdown (heap st' r) = countdown (heap st r)"
      "timers st' = timers st"
      by (simp_all add: eq c joined_fields)
  }
qed

text \<open>On the example game: an unknown id, a late join, and a fourth player joining.\<close>

theorem join_event_witness:
  "sprintGames (demo_server Waiting) ''g9'' = None
   \<and> sprintGames (demo_server Active) ''g1'' = Some 0
   \<and> status (heap (demo_server Active) 0) = Active
   \<and> status (heap (demo_server Waiting) 0) = Waiting
   \<and> Map_get (players (heap (demo_server Waiting) 0)) ''s4'' = None
   \<and> emitted (join_sprint ''s4'' (Some \<lparr>d_gameId = ''g9'', d_username = None, d_caller = None\<rparr>)
         (demo_server Waiting)) = [(ToSocket ''s4'', ErrorEv ''Game not found'')]
   \<and> emitted (join_sprint ''s4'' (Some \<lparr>d_gameId = ''g1'', d_username = None, d_caller = None\<rparr>)
         (demo_server Active)) = [(ToSocket ''s4'', ErrorEv ''Game already started or finished'')]
   \<and> heap (join_sprint ''s4'' (Some \<lparr>d_gameId = ''g1'', d_username = None, d_caller = None\<rparr>)
         (demo_server Active)) = heap (demo_server Active)
   \<and> Map_values (players (heap (join_sprint ''s4''
         (Some \<lparr>d_gameId = ''g1'', d_username = Some ''dave'', d_caller = None\<rparr>) (demo_server Waiting)) 0))
       = [alice, bob, carol, \<lparr>pid = ''s4'', username = ''dave'', taps = 0, connected = True\<rparr>]
   \<and> status (heap (join_sprint ''s4''
         (Some \<lparr>d_gameId = ''g1'', d_username = Some ''dave'', d_caller = None\<rparr>) (demo_server Waiting)) 0)
       = Countdown
   \<and> countdown (heap (join_sprint ''s4''
         (Some \<lparr>d_gameId = ''g1'', d_username = Some ''dave'', d_caller = None\<rparr>) (demo_server Waiting)) 0)
       = 5"
proof -
  let ?d9 = "\<lparr>d_gameId = ''g9'', d_username = None, d_caller = None\<rparr>"
  let ?d1 = "\<lparr>d_gameId = ''g1'', d_username = None, d_caller = None\<rparr>"
  let ?dd = "\<lparr>d_gameId = ''g1'', d_username = Some ''dave'', d_caller = None\<rparr>"
  have none: "sprintGames (demo_server Waiting) (d_gameId ?d9) = None"
    by (simp add: demo_server_def)
  have reg: "\<And>s. sprintGames (demo_server s) (d_gameId ?d1) = Some 0"
    "\<And>s. sprintGames (demo_server s) (d_gameId ?dd) = Some 0"
    by (simp_all add: demo_server_g1)
  have st: "\<And>s. status (heap (demo_server s) 0) = s"
    by (simp add: demo_server_g1 demo_game_fields)
  have absent: "Map_get (players (heap (demo_server Waiting) 0)) ''s4'' = None"
    by (simp add: demo_server_g1 demo_game_fields Map_get_def)
  have em: "\<And>s. emitted (demo_server s) = []"
    by (simp add: demo_server_def)
  have vals: "Map_values (players (heap (demo_server Waiting) 0)) = [alice, bob, carol]"
    by (simp add: demo_server_g1 demo_game_fields Map_values_def)
  note A = join_event [where sid = "''s4''" and d = "?d9" and st = "demo_server Waiting", OF refl refl, THEN conjunct1, rule_format, OF none]
  note B = join_event [where sid = "''s4''" and d = "?d1" and st = "demo_server Active", OF refl refl, THEN conjunct2, THEN conjunct1,
      rule_format, OF conjI [OF reg(1) disjI1 [OF st]]]
  note C = join_event [where sid = "''s4''" and d = "?dd" and st = "demo_server Waiting", OF refl refl, THEN conjunct2, THEN conjunct2,
      rule_format, OF conjI [OF reg(2) disjI1 [OF st]]]
  have a: "emitted (join_sprint ''s4'' (Some ?d9) (demo_server Waiting))
      = [(ToSocket ''s4'', ErrorEv ''Game not found'')]"
    by (simp add: A emit_def em)
  have b: "emitted (join_sprint ''s4'' (Some ?d1) (demo_server Active))
      = [(ToSocket ''s4'', ErrorEv ''Game already started or finished'')]"
    using B by (simp add: emit_def em)
  have b': "heap (join_sprint ''s4'' (Some ?d1) (demo_server Active)) = heap (demo_server Active)"
    by (rule B [THEN conjunct2, THEN conjunct1])
  have c: "Map_values (players (heap (join_sprint ''s4'' (Some ?dd) (demo_server Waiting)) 0))
       = [alice, bob, carol, \<lparr>pid = ''s4'', username = ''dave'', taps = 0, connected = True\<rparr>]"
    using C absent by (simp add: vals display_name_def)
  have c': "status (heap (join_sprint ''s4'' (Some ?dd) (demo_server Waiting)) 0) = Countdown"
    "countdown (heap (join_sprint ''s4'' (Some ?dd) (demo_server Waiting)) 0) = 5"
    using C st [of Waiting] by simp_all
  from none reg(1) [of Active] st [of Active] st [of Waiting] absent a b b' c c'
  show ?thesis by simp
qed

section \<open>The countdown\<close>

lemma fire_tick:
  assumes "timers st h = Some t" and "callback t = CountdownTick g r" and "repeat t"
  shows "fire h now writes st = countdownTick h g r now st"
  using assms by (simp add: fire_def run_callback_def)

lemma startSprintGame_registered:
  assumes "sprintGames st g = Some r"
  shows "heap (startSprintGame g now st) =
       (heap st)(r := (heap st r)\<lparr>status := Active, startTime := Some now,
                                   endTime := Some (now + gameDuration (heap st r))\<rparr>)"
    "emitted (startSprintGame g now st) = emitted st @ [(ToRoom g, GameStarted (gameDuration (heap st r)))]"
    "timers (startSprintGame g now st) =
       (timers st)(next_timer st \<mapsto> \<lparr>delay = gameDuration (heap st r), repeat = False, callback = EndGame g\<rparr>)"
    "next_timer (startSprintGame g now st) = Suc (next_timer st)"
  using assms by (simp_all add: startSprintGame_def Let_def prim_defs)

lemma tick_counting:
  assumes "0 < countdown (heap st r)"
  shows "countdownTick h g r now st =
     update_game r (\<lambda>game. game\<lparr>countdown := countdown game - 1\<rparr>)
       (emit (ToRoom g) (CountdownEv (countdown (heap st r))) st)"
  using assms by (simp add: countdownTick_def Let_def prim_defs)

lemma tick_starting:
  assumes "countdown (heap st r) \<le> 0"
  shows "countdownTick h g r now st =
     startSprintGame g now (clearInterval h
       (update_game r (\<lambda>game. game\<lparr>countdown := countdown game - 1\<rparr>)
         (emit (ToRoom g) (CountdownEv (countdown (heap st r))) st)))"
  using assms by (simp add: countdownTick_def Let_def prim_defs)

lemma countdown_server_fields:
  "sprintGames (countdown_server n) ''g1'' = Some 0"
  "timers (countdown_server n) 0 = Some \<lparr>delay = 1000, repeat = True, callback = CountdownTick ''g1'' 0\<rparr>"
  "next_timer (countdown_server n) = 1"
  "emitted (countdown_server n) = []"
  "countdown (heap (countdown_server n) 0) = n"
  "gameDuration (heap (countdown_server n) 0) = 15000"
  "status (heap (countdown_server n) 0) = Countdown"
  by (simp_all add: countdown_server_def demo_server_def demo_game_def)

text \<open>
  The duration of a game is written once, by the route that creates the game, and no
  event changes it afterwards.
\<close>

lemma createGame_gameDuration:
  "gameDuration (heap (snd (createGame ts rnd st)) (next_ref st)) = 15000"
  by (simp add: createGame_def Let_def new_game_def)

lemma step_gameDuration:
  assumes "r < next_ref st"
  shows "gameDuration (heap (step ev st) r) = gameDuration (heap st r)"
proof (cases ev)
  case (EvCreate ts rnd)
  then show ?thesis using assms by (simp add: createGame_def Let_def)
next
  case (EvJoin sid data)
  then show ?thesis
    by (simp add: join_sprint_def startSprintCountdown_def Let_def prim_defs split: option.splits)
next
  case (EvTap sid data)
  then show ?thesis by (simp add: tap_def Let_def prim_defs split: option.splits)
next
  case (EvDisconnect sid)
  then show ?thesis by (simp add: disconnect_def Let_def prim_defs split: option.splits)
next
  case (EvFire h now writes)
  then show ?thesis
    by (simp add: fire_def run_callback_def countdownTick_def startSprintGame_def endSprintGame_def
        cleanupGame_def save_results_fields Let_def prim_defs split: option.splits callback.splits)
qed

text \<open>
  C4, as the code has it. A tick of the countdown interval of a registered game broadcasts
  the counter as it stands before the tick and then takes exactly 1 off it; players and
  duration stay. While the counter was above 0 nothing else changes. When the counter
  thereby falls below 0 the interval is cleared, the game becomes active with
  \<^verbatim>\<open>startTime\<close> the current time and \<^verbatim>\<open>endTime\<close> that time plus the duration of the
  game, a start event carrying the duration is broadcast after the tick's own event, and
  the end of the window is scheduled after that duration.
\<close>

theorem countdown_tick:
  assumes pend: "timers st h = Some t" "callback t = CountdownTick g r" "repeat t"
    and reg: "sprintGames st g = Some r"
    and st': "st' = fire h now writes st"
    and c: "c = countdown (heap st r)"
    and dur: "dur = gameDuration (heap st r)"
  shows "countdown (heap st' r) = c - 1
    \<and> gameDuration (heap st' r) = dur
    \<and> players (heap st' r) = players (heap st r)
    \<and> (0 < c \<longrightarrow>
          emitted st' = emitted st @ [(ToRoom g, CountdownEv c)]
          \<and> status (heap st' r) = status (heap st r)
          \<and> startTime (heap st' r) = startTime (heap st r)
          \<and> endTime (heap st' r) = endTime (heap st r)
          \<and> timers st' = timers st)
    \<and> (c \<le> 0 \<longrightarrow>
          emitted st' = emitted st @ [(ToRoom g, CountdownEv c), (ToRoom g, GameStarted dur)]
          \<and> status (heap st' r) = Active
          \<and> startTime (heap st' r) = Some now
          \<and> endTime (heap st' r) = Some (now + dur)
          \<and> timers st' = (timers st)(h := None, next_timer st \<mapsto>
                \<lparr>delay = dur, repeat = False, callback = EndGame g\<rparr>))"
proof (cases "0 < c")
  case True
  have eq: "st' = update_game r (\<lambda>game. game\<lparr>countdown := countdown game - 1\<rparr>)
       (emit (ToRoom g) (CountdownEv c) st)"
    using True by (simp add: st' fire_tick [OF pend] tick_counting c)
  show ?thesis
    using True by (simp add: eq prim_defs c dur)
next
  case False
  let ?mid = "clearInterval h
       (update_game r (\<lambda>game. game\<lparr>countdown := countdown game - 1\<rparr>)
         (emit (ToRoom g) (CountdownEv c) st))"
  have eq: "st' = startSprintGame g now ?mid"
    using False by (simp add: st' fire_tick [OF pend] tick_starting c)
  have regm: "sprintGames ?mid g = Some r"
    by (simp add: prim_defs reg)
  show ?thesis
    using False
    by (simp add: eq startSprintGame_registered [OF regm]) (simp add: prim_defs c dur)
qed

text \<open>On the example game: a tick at 5 and the last tick, at 0.\<close>

theorem countdown_tick_witness:
  "timers (countdown_server 0) 0 = Some \<lparr>delay = 1000, repeat = True, callback = CountdownTick ''g1'' 0\<rparr>
   \<and> sprintGames (countdown_server 0) ''g1'' = Some 0
   \<and> countdown (heap (fire 0 1000 [] (countdown_server 5)) 0) = 4
   \<and> emitted (fire 0 1000 [] (countdown_server 5)) = [(ToRoom ''g1'', CountdownEv 5)]
   \<and> status (heap (fire 0 1000 [] (countdown_server 5)) 0) = Countdown
   \<and> emitted (fire 0 1000 [] (countdown_server 0))
        = [(ToRoom ''g1'', CountdownEv 0), (ToRoom ''g1'', GameStarted 15000)]
   \<and> status (heap (fire 0 1000 [] (countdown_server 0)) 0) = Active
   \<and> startTime (heap (fire 0 1000 [] (countdown_server 0)) 0) = Some 1000
   \<and> endTime (heap (fire 0 1000 [] (countdown_server 0)) 0) = Some 16000
   \<and> timers (fire 0 1000 [] (countdown_server 0)) 0 = None
   \<and> timers (fire 0 1000 [] (countdown_server 0)) 1
        = Some \<lparr>delay = 15000, repeat = False, callback = EndGame ''g1''\<rparr>"
proof -
  have cb: "callback \<lparr>delay = 1000, repeat = True, callback = CountdownTick ''g1'' 0\<rparr>
      = CountdownTick ''g1'' 0"
    and rp: "repeat \<lparr>delay = 1000, repeat = True, callback = CountdownTick ''g1'' 0\<rparr>"
    by simp_all
  note T5 = countdown_tick [where st = "countdown_server 5" and now = 1000 and writes = "[]",
      OF countdown_server_fields(2) cb rp countdown_server_fields(1) refl refl refl]
  note T0 = countdown_tick [where st = "countdown_server 0" and now = 1000 and writes = "[]",
      OF countdown_server_fields(2) cb rp countdown_server_fields(1) refl refl refl]
  from T5 T0 show ?thesis
    by (simp add: countdown_server_fields)
qed

text \<open>
  The value that a tick broadcasts is not the counter after the tick: at 5 the
  tick broadcasts 5 and leaves the counter at 4.
\<close>

theorem countdown_tick_counterexample:
  "status (heap (countdown_server 5) 0) = Countdown
   \<and> countdown (heap (countdown_server 5) 0) = 5
   \<and> countdown (heap (fire 0 1000 [] (countdown_server 5)) 0) = 4
   \<and> emitted (fire 0 1000 [] (countdown_server 5))
        = emitted (countdown_server 5) @ [(ToRoom ''g1'', CountdownEv 5)]
   \<and> emitted (fire 0 1000 [] (countdown_server 5))
        \<noteq> emitted (countdown_server 5)
            @ [(ToRoom ''g1'', CountdownEv (countdown (heap (fire 0 1000 [] (countdown_server 5)) 0)))]"
  by (simp add: fire_def run_callback_def countdownTick_def Let_def prim_defs
      countdown_server_def demo_server_def demo_game_def)

section \<open>After the finish\<close>








section \<open>Reading the results\<close>

lemma select_results_sorted:
  "sorted_wrt (\<lambda>a b. row_taps (fst b) \<le> row_taps (fst a)) (select_results st g)"
proof -
  have "sorted (map (\<lambda>(row, u). - row_taps row) (select_results st g))"
    unfolding select_results_def by (rule sorted_sort_key)
  then show ?thesis
    by (simp add: sorted_map case_prod_beta)
qed

lemma select_results_rows:
  "mset (map fst (select_results st g)) = mset (filter (\<lambda>row. game_id row = g) (sprint_results st))"
proof -
  let ?rows = "filter (\<lambda>row. game_id row = g) (sprint_results st)"
  have "mset (select_results st g) = mset (map (left_join_users st) ?rows)"
    unfolding select_results_def by (rule mset_sort)
  then have "mset (map fst (select_results st g)) = mset (map fst (map (left_join_users st) ?rows))"
    by (metis mset_map)
  also have "map fst (map (left_join_users st) ?rows) = ?rows"
    by (simp add: left_join_users_def comp_def)
  finally show ?thesis .
qed

lemma getResults_store_only:
  assumes "sprint_results st' = sprint_results st" and "users st' = users st"
  shows "getResults st' g e = getResults st g e"
proof -
  have "left_join_users st' = left_join_users st"
    by (intro ext) (simp add: left_join_users_def assms(2) split: option.splits)
  then show ?thesis
    using assms(1) by (simp add: getResults_def select_results_def)
qed

text \<open>No event takes a row out of the table, and no event touches the users.\<close>

lemma endSprintGame_keeps:
  "mset (sprint_results st) \<subseteq># mset (sprint_results (endSprintGame g ws st))"
proof (cases "sprintGames st g")
  case None
  then show ?thesis by (simp add: endSprintGame_def)
next
  case (Some r)
  show ?thesis by (simp add: endSprintGame_table [OF Some])
qed

lemma step_keeps:
  "mset (sprint_results st) \<subseteq># mset (sprint_results (step ev st))"
proof (cases ev)
  case (EvCreate ts rnd)
  then show ?thesis by (simp add: createGame_def Let_def)
next
  case (EvJoin sid data)
  then show ?thesis by (simp add: join_sprint_frame)
next
  case (EvTap sid data)
  then show ?thesis by (simp add: tap_frame)
next
  case (EvDisconnect sid)
  then show ?thesis by (simp add: disconnect_frame)
next
  case (EvFire h now writes)
  show ?thesis
  proof (cases "timers st h")
    case None
    then show ?thesis using EvFire by (simp add: fire_def)
  next
    case (Some t)
    let ?st = "if repeat t then st else st\<lparr>timers := (timers st)(h := None)\<rparr>"
    have same: "sprint_results ?st = sprint_results st" by simp
    show ?thesis
    proof (cases "callback t")
      case (CountdownTick g r)
      then show ?thesis using EvFire Some
        by (simp add: fire_def run_callback_def countdownTick_frame)
    next
      case (EndGame g)
      have "mset (sprint_results ?st) \<subseteq># mset (sprint_results (endSprintGame g writes ?st))"
        by (rule endSprintGame_keeps)
      then show ?thesis
        using EvFire Some EndGame by (simp add: fire_def run_callback_def same)
    next
      case (Cleanup g)
      then show ?thesis using EvFire Some
        by (simp add: fire_def run_callback_def cleanupGame_def)
    qed
  qed
qed

lemma run_keeps:
  "mset (sprint_results st) \<subseteq># mset (sprint_results (run evs st))"
proof (induction evs arbitrary: st)
  case Nil
  then show ?case by (simp add: run_def)
next
  case (Cons ev evs)
  have "mset (sprint_results st) \<subseteq># mset (sprint_results (step ev st))"
    by (rule step_keeps)
  also have "\<dots> \<subseteq># mset (sprint_results (run evs (step ev st)))"
    by (rule Cons.IH)
  finally show ?case by (simp add: run_def)
qed

lemma fire_cleanup:
  assumes "timers st h = Some t" and "callback t = Cleanup g" and "\<not> repeat t"
  shows "fire h now writes st = cleanupGame g (st\<lparr>timers := (timers st)(h := None)\<rparr>)"
  using assms by (simp add: fire_def run_callback_def)

lemma endSprintGame_timer:
  assumes "sprintGames st g = Some r"
  shows "timers (endSprintGame g writes st)
     = (timers st)(next_timer st \<mapsto> \<lparr>delay = 30000, repeat = False, callback = Cleanup g\<rparr>)"
  using assms by (simp add: endSprintGame_def Let_def prim_defs save_results_fields)

lemma active_server_end:
  "sprintGames (fire 2 16000 [] active_server) ''g1'' = Some 0"
  "sprint_results (fire 2 16000 [] active_server)
     = [\<lparr>game_id = ''g1'', user_id = None, row_taps = 3\<rparr>,
        \<lparr>game_id = ''g1'', user_id = None, row_taps = 7\<rparr>,
        \<lparr>game_id = ''g1'', user_id = None, row_taps = 3\<rparr>]"
  "timers (fire 2 16000 [] active_server) 3
     = Some \<lparr>delay = 30000, repeat = False, callback = Cleanup ''g1''\<rparr>"
  "users (fire 2 16000 [] active_server) = Map.empty"
  "status (heap (fire 2 16000 [] active_server) 0) = Finished"
  by (simp_all add: fire_def run_callback_def endSprintGame_def Let_def prim_defs
      active_server_def demo_server_def demo_game_def Map_values_def db_run_insert_def land_row_def write_for_def
      alice_def bob_def carol_def)

text \<open>
  C6, as the code has it. The results route reads the table and nothing else. When the
  query succeeds it answers with exactly the rows of the game id, in descending order of
  taps (an empty list for an id without rows); when the store reports an error it
  answers \<^verbatim>\<open>Failed to fetch results\<close>. Its answer depends on the table and the
  users only, so neither the registry nor the clean-up changes it: a row that is in the
  table is still returned after any further events. The clean-up is scheduled by
  \<^verbatim>\<open>endSprintGame\<close> with a delay of 30000 ms; when it runs, the game leaves the
  registry and the route answers as before.
\<close>

theorem getResults_durable:
  "getResults st g False = Inr (select_results st g)
   \<and> getResults st g True = Inl ''Failed to fetch results''
   \<and> sorted_wrt (\<lambda>a b. row_taps (fst b) \<le> row_taps (fst a)) (select_results st g)
   \<and> mset (map fst (select_results st g))
       = mset (filter (\<lambda>row. game_id row = g) (sprint_results st))
   \<and> (sprint_results st' = sprint_results st \<and> users st' = users st \<longrightarrow>
         getResults st' g e = getResults st g e)
   \<and> (\<forall>row \<in> set (sprint_results st). game_id row = g \<longrightarrow>
         row \<in> set (map fst (select_results (run evs st) g)))
   \<and> (\<forall>r. sprintGames st g = Some r \<longrightarrow>
         timers (endSprintGame g writes st) (next_timer st)
           = Some \<lparr>delay = 30000, repeat = False, callback = Cleanup g\<rparr>)
   \<and> (\<forall>t. timers st h = Some t \<and> callback t = Cleanup g \<and> \<not> repeat t \<longrightarrow>
         sprintGames (fire h now writes st) g = None
         \<and> getResults (fire h now writes st) g e = getResults st g e)"
proof (intro conjI allI impI ballI)
  show "getResults st g False = Inr (select_results st g)"
    "getResults st g True = Inl ''Failed to fetch results''"
    by (simp_all add: getResults_def)
  show "sorted_wrt (\<lambda>a b. row_taps (fst b) \<le> row_taps (fst a)) (select_results st g)"
    by (rule select_results_sorted)
  show "mset (map fst (select_results st g))
       = mset (filter (\<lambda>row. game_id row = g) (sprint_results st))"
    by (rule select_results_rows)
next
  assume "sprint_results st' = sprint_results st \<and> users st' = users st"
  then show "getResults st' g e = getResults st g e"
    by (intro getResults_store_only) simp_all
next
  fix row
  assume row: "row \<in> set (sprint_results st)" and g: "game_id row = g"
  have "set_mset (mset (sprint_results st)) \<subseteq> set_mset (mset (sprint_results (run evs st)))"
    using run_keeps by (rule set_mset_mono)
  then have "row \<in> set (filter (\<lambda>row. game_id row = g) (sprint_results (run evs st)))"
    using row g by auto
  moreover have "set (map fst (select_results (run evs st) g))
      = set (filter (\<lambda>row. game_id row = g) (sprint_results (run evs st)))"
    using select_results_rows [of "run evs st" g] by (rule mset_eq_setD)
  ultimately show "row \<in> set (map fst (select_results (run evs st) g))"
    by simp
next
  fix r
  assume "sprintGames st g = Some r"
  then show "timers (endSprintGame g writes st) (next_timer st)
           = Some \<lparr>delay = 30000, repeat = False, callback = Cleanup g\<rparr>"
    by (simp add: endSprintGame_timer)
next
  fix t
  assume t: "timers st h = Some t \<and> callback t = Cleanup g \<and> \<not> repeat t"
  then have eq: "fire h now writes st = cleanupGame g (st\<lparr>timers := (timers st)(h := None)\<rparr>)"
    using fire_cleanup by simp
  show "sprintGames (fire h now writes st) g = None"
    by (simp add: eq cleanupGame_def)
  show "getResults (fire h now writes st) g e = getResults st g e"
    by (rule getResults_store_only) (simp_all add: eq cleanupGame_def)
qed

text \<open>On the example game, after the end of its window and after its clean-up.\<close>

theorem getResults_durable_witness:
  "\<lparr>game_id = ''g1'', user_id = None, row_taps = 7\<rparr>
      \<in> set (sprint_results (fire 2 16000 [] active_server))
   \<and> sprintGames (fire 2 16000 [] active_server) ''g1'' = Some 0
   \<and> timers (fire 2 16000 [] active_server) 3
        = Some \<lparr>delay = 30000, repeat = False, callback = Cleanup ''g1''\<rparr>
   \<and> \<lparr>game_id = ''g1'', user_id = None, row_taps = 7\<rparr>
      \<in> set (map fst (select_results
            (run [EvFire 3 46000 [], EvDisconnect ''s1''] (fire 2 16000 [] active_server)) ''g1''))
   \<and> sprintGames (fire 3 46000 [] (fire 2 16000 [] active_server)) ''g1'' = None
   \<and> getResults (fire 3 46000 [] (fire 2 16000 [] active_server)) ''g1'' False
        = getResults (fire 2 16000 [] active_server) ''g1'' False
   \<and> timers (endSprintGame ''g1'' [] (fire 2 16000 [] active_server))
         (next_timer (fire 2 16000 [] active_server))
        = Some \<lparr>delay = 30000, repeat = False, callback = Cleanup ''g1''\<rparr>"
proof -
  let ?F = "fire 2 16000 [] active_server"
  let ?row = "\<lparr>game_id = ''g1'', user_id = None, row_taps = 7\<rparr>"
  let ?t = "\<lparr>delay = 30000, repeat = False, callback = Cleanup ''g1''\<rparr>"
  have row: "?row \<in> set (sprint_results ?F)"
    by (simp add: active_server_end)
  have g: "game_id ?row = ''g1''" by simp
  have t: "timers ?F 3 = Some ?t \<and> callback ?t = Cleanup ''g1'' \<and> \<not> repeat ?t"
    by (simp add: active_server_end)
  note T = getResults_durable [where st = ?F and g = "''g1''" and h = 3 and now = 46000
      and writes = "[]" and e = False and evs = "[EvFire 3 46000 [], EvDisconnect ''s1'']"]
  note kept = T [THEN conjunct2, THEN conjunct2, THEN conjunct2, THEN conjunct2, THEN conjunct2,
      THEN conjunct1, rule_format, OF row g]
  note timer = T [THEN conjunct2, THEN conjunct2, THEN conjunct2, THEN conjunct2, THEN conjunct2,
      THEN conjunct2, THEN conjunct1, rule_format, OF active_server_end(1)]
  note evict = T [THEN conjunct2, THEN conjunct2, THEN conjunct2, THEN conjunct2, THEN conjunct2,
      THEN conjunct2, THEN conjunct2, rule_format, OF t]
  from row active_server_end(1) active_server_end(3) kept evict timer
  show ?thesis by (intro conjI) simp_all
qed

text \<open>
  No answer of the route says that a session was not found: after the clean-up of the
  finished example game the registry no longer has the game and the route still returns
  its three rows, and for an id that never existed it returns the empty list.
\<close>

theorem getResults_durable_counterexample:
  "status (heap (fire 2 16000 [] active_server) 0) = Finished
   \<and> sprintGames (fire 3 46000 [] (fire 2 16000 [] active_server)) ''g1'' = None
   \<and> getResults (fire 3 46000 [] (fire 2 16000 [] active_server)) ''g1'' False
        = Inr [(\<lparr>game_id = ''g1'', user_id = None, row_taps = 7\<rparr>, None),
               (\<lparr>game_id = ''g1'', user_id = None, row_taps = 3\<rparr>, None),
               (\<lparr>game_id = ''g1'', user_id = None, row_taps = 3\<rparr>, None)]
   \<and> getResults init_server ''g9'' False = Inr []"
proof -
  let ?F = "fire 2 16000 [] active_server"
  let ?t = "\<lparr>delay = 30000, repeat = False, callback = Cleanup ''g1''\<rparr>"
  have eq: "fire 3 46000 [] ?F = cleanupGame ''g1'' (?F\<lparr>timers := (timers ?F)(3 := None)\<rparr>)"
    by (rule fire_cleanup [where t = ?t]) (simp_all add: active_server_end)
  have a: "sprintGames (fire 3 46000 [] ?F) ''g1'' = None"
    by (simp add: eq cleanupGame_def)
  have b: "getResults (fire 3 46000 [] ?F) ''g1'' False
        = Inr [(\<lparr>game_id = ''g1'', user_id = None, row_taps = 7\<rparr>, None),
               (\<lparr>game_id = ''g1'', user_id = None, row_taps = 3\<rparr>, None),
               (\<lparr>game_id = ''g1'', user_id = None, row_taps = 3\<rparr>, None)]"
    by (simp add: eq cleanupGame_def getResults_def select_results_def left_join_users_def
        active_server_end)
  have c: "getResults init_server ''g9'' False = Inr []"
    by (simp add: getResults_def select_results_def init_server_def)
  from active_server_end(5) a b c show ?thesis by (intro conjI)
qed

section \<open>What the timer callbacks check\<close>

lemma helpers_missing:
  assumes "sprintGames st g = None"
  shows "startSprintCountdown g st = st" "startSprintGame g now st = st"
    "endSprintGame g writes st = st"
  using assms by (simp_all add: startSprintCountdown_def startSprintGame_def endSprintGame_def)

lemma countdownTick_counter:
  "countdown (heap (countdownTick h g r now st) r) = countdown (heap st r) - 1"
  by (simp add: countdownTick_def Let_def startSprintGame_def prim_defs split: option.splits)

text \<open>
  C7, as the code has it. The start of the countdown, the activation and the end of the
  window look the game up in the registry first: for a game that is not there they
  return the server state as it is, so a late end-of-window timer only disappears.
  For a game that is there they act whatever its status is: the status becomes
  countdown, active or finished respectively. The countdown tick looks nothing up: it
  takes 1 off the counter of the game object it holds.
\<close>

theorem callbacks_guard:
  "(sprintGames st g = None \<longrightarrow>
      startSprintCountdown g st = st
      \<and> startSprintGame g now st = st
      \<and> endSprintGame g writes st = st
      \<and> (\<forall>t. timers st h = Some t \<and> \<not> repeat t \<and> callback t = EndGame g \<longrightarrow>
            fire h now writes st = st\<lparr>timers := (timers st)(h := None)\<rparr>))
   \<and> (\<forall>r. sprintGames st g = Some r \<longrightarrow>
          status (heap (startSprintCountdown g st) r) = Countdown
          \<and> status (heap (startSprintGame g now st) r) = Active
          \<and> status (heap (endSprintGame g writes st) r) = Finished)
   \<and> countdown (heap (countdownTick h g r' now st) r') = countdown (heap st r') - 1"
proof (intro conjI allI impI)
  assume none: "sprintGames st g = None"
  show "startSprintCountdown g st = st" "startSprintGame g now st = st"
    "endSprintGame g writes st = st"
    by (simp_all add: helpers_missing [OF none])
  fix t
  assume t: "timers st h = Some t \<and> \<not> repeat t \<and> callback t = EndGame g"
  have "sprintGames (st\<lparr>timers := (timers st)(h := None)\<rparr>) g = None"
    using none by simp
  then have "endSprintGame g writes (st\<lparr>timers := (timers st)(h := None)\<rparr>)
      = st\<lparr>timers := (timers st)(h := None)\<rparr>"
    by (rule helpers_missing)
  then show "fire h now writes st = st\<lparr>timers := (timers st)(h := None)\<rparr>"
    using t by (simp add: fire_def run_callback_def)
next
  fix r
  assume reg: "sprintGames st g = Some r"
  show "status (heap (startSprintCountdown g st) r) = Countdown"
    by (simp add: startSprintCountdown_registered [OF reg])
  show "status (heap (startSprintGame g now st) r) = Active"
    by (simp add: startSprintGame_registered [OF reg])
  show "status (heap (endSprintGame g writes st) r) = Finished"
    using reg by (simp add: endSprintGame_def Let_def prim_defs save_results_fields)
next
  show "countdown (heap (countdownTick h g r' now st) r') = countdown (heap st r') - 1"
    by (rule countdownTick_counter)
qed

text \<open>
  On the example game: the end-of-window timer running after the game has left the
  registry, and an activation of a registered game.
\<close>

theorem callbacks_guard_witness:
  "sprintGames (cleanupGame ''g1'' active_server) ''g1'' = None
   \<and> timers (cleanupGame ''g1'' active_server) 2
        = Some \<lparr>delay = 15000, repeat = False, callback = EndGame ''g1''\<rparr>
   \<and> sprintGames (demo_server Waiting) ''g1'' = Some 0
   \<and> startSprintGame ''g1'' 1000 (cleanupGame ''g1'' active_server) = cleanupGame ''g1'' active_server
   \<and> endSprintGame ''g1'' [] (cleanupGame ''g1'' active_server) = cleanupGame ''g1'' active_server
   \<and> emitted (fire 2 16000 [] (cleanupGame ''g1'' active_server)) = []
   \<and> sprint_results (fire 2 16000 [] (cleanupGame ''g1'' active_server)) = []
   \<and> status (heap (startSprintGame ''g1'' 1000 (demo_server Waiting)) 0) = Active"
proof -
  let ?E = "cleanupGame ''g1'' active_server"
  let ?t = "\<lparr>delay = 15000, repeat = False, callback = EndGame ''g1''\<rparr>"
  have none: "sprintGames ?E ''g1'' = None"
    by (simp add: cleanupGame_def)
  have t: "timers ?E 2 = Some ?t \<and> \<not> repeat ?t \<and> callback ?t = EndGame ''g1''"
    by (simp add: cleanupGame_def active_server_def)
  have e: "emitted ?E = []" "sprint_results ?E = []"
    by (simp_all add: cleanupGame_def active_server_def demo_server_def)
  note M = callbacks_guard [where st = ?E and g = "''g1''" and now = 1000 and writes = "[]" and h = 2,
      THEN conjunct1, rule_format, OF none]
  note F = callbacks_guard [where st = ?E and g = "''g1''" and now = 16000 and writes = "[]" and h = 2,
      THEN conjunct1, rule_format, OF none, THEN conjunct2, THEN conjunct2, THEN conjunct2,
      rule_format, OF t]
  note R = callbacks_guard [where st = "demo_server Waiting" and g = "''g1''" and now = 1000,
      THEN conjunct2, THEN conjunct1, rule_format, OF demo_server_g1(1)]
  have f: "emitted (fire 2 16000 [] ?E) = []" "sprint_results (fire 2 16000 [] ?E) = []"
    by (simp_all add: F e)
  from none t demo_server_g1(1) [of Waiting] M R f show ?thesis
    by (intro conjI) simp_all
qed

text \<open>
  The status is not checked: a second end-of-window callback on the finished example game
  writes three more rows and broadcasts the final standings again, and an activation of
  the finished game makes it active. Nor does the tick check the registry: for a game
  that has left the registry it still broadcasts and counts down.
\<close>

theorem callbacks_guard_counterexample:
  "status (heap (demo_server Finished) 0) = Finished
   \<and> sprint_results (demo_server Finished) = []
   \<and> emitted (demo_server Finished) = []
   \<and> sprint_results (endSprintGame ''g1'' [] (demo_server Finished))
        = [\<lparr>game_id = ''g1'', user_id = None, row_taps = 3\<rparr>,
           \<lparr>game_id = ''g1'', user_id = None, row_taps = 7\<rparr>,
           \<lparr>game_id = ''g1'', user_id = None, row_taps = 3\<rparr>]
   \<and> emitted (endSprintGame ''g1'' [] (demo_server Finished))
        = [(ToRoom ''g1'', GameEnded [bob, alice, carol] (Some bob))]
   \<and> status (heap (startSprintGame ''g1'' 99000 (demo_server Finished)) 0) = Active
   \<and> sprintGames (cleanupGame ''g1'' (countdown_server 3)) ''g1'' = None
   \<and> emitted (countdownTick 0 ''g1'' 0 1000 (cleanupGame ''g1'' (countdown_server 3)))
        = [(ToRoom ''g1'', CountdownEv 3)]
   \<and> countdown (heap (countdownTick 0 ''g1'' 0 1000 (cleanupGame ''g1'' (countdown_server 3))) 0) = 2"
proof -
  have a: "status (heap (demo_server Finished) 0) = Finished"
    "sprint_results (demo_server Finished) = []" "emitted (demo_server Finished) = []"
    by (simp_all add: demo_server_def demo_game_def)
  have b: "sprint_results (endSprintGame ''g1'' [] (demo_server Finished))
        = [\<lparr>game_id = ''g1'', user_id = None, row_taps = 3\<rparr>,
           \<lparr>game_id = ''g1'', user_id = None, row_taps = 7\<rparr>,
           \<lparr>game_id = ''g1'', user_id = None, row_taps = 3\<rparr>]"
    by (simp add: endSprintGame_def Let_def prim_defs demo_server_def demo_game_def
        Map_values_def db_run_insert_def land_row_def write_for_def alice_def bob_def carol_def)
  have c: "emitted (endSprintGame ''g1'' [] (demo_server Finished))
        = [(ToRoom ''g1'', GameEnded [bob, alice, carol] (Some bob))]"
    by (simp add: endSprintGame_def Let_def prim_defs demo_server_def demo_game_def
        Map_values_def save_results_fields Array_sort_def by_taps_desc_def first_elem_def
        alice_def bob_def carol_def)
  have d: "status (heap (startSprintGame ''g1'' 99000 (demo_server Finished)) 0) = Active"
    by (simp add: startSprintGame_registered [OF demo_server_g1(1)])
  have e: "sprintGames (cleanupGame ''g1'' (countdown_server 3)) ''g1'' = None"
    by (simp add: cleanupGame_def)
  have f: "emitted (countdownTick 0 ''g1'' 0 1000 (cleanupGame ''g1'' (countdown_server 3)))
        = [(ToRoom ''g1'', CountdownEv 3)]"
    "countdown (heap (countdownTick 0 ''g1'' 0 1000 (cleanupGame ''g1'' (countdown_server 3))) 0) = 2"
    by (simp_all add: countdownTick_def Let_def prim_defs cleanupGame_def countdown_server_def
        demo_server_def demo_game_def)
  from a b c d e f show ?thesis by (intro conjI)
qed

section \<open>The connection tracker\<close>

text \<open>
  C8 does not hold on the code. In the example game, run to the end of its window and to
  its clean-up, the tracker still maps alice's socket to the game although the game has
  left the registry; the disconnect of that socket then finds no game and returns the
  server state as it is, so the entry of the tracker stays: the deletion from
  \<^verbatim>\<open>activePlayers\<close> sits inside the branch \<^verbatim>\<open>if (game)\<close>.
\<close>

theorem tracker_after_eviction:
  "sprintGames (fire 3 46000 [] (fire 2 16000 [] active_server)) ''g1'' = None
   \<and> activePlayers (fire 3 46000 [] (fire 2 16000 [] active_server)) ''s1''
        = Some (''g1'', Some ''alice'')
   \<and> disconnect ''s1'' (fire 3 46000 [] (fire 2 16000 [] active_server))
        = fire 3 46000 [] (fire 2 16000 [] active_server)
   \<and> activePlayers (disconnect ''s1'' (fire 3 46000 [] (fire 2 16000 [] active_server))) ''s1''
        = Some (''g1'', Some ''alice'')"
proof -
  let ?F = "fire 2 16000 [] active_server"
  let ?t = "\<lparr>delay = 30000, repeat = False, callback = Cleanup ''g1''\<rparr>"
  have eq: "fire 3 46000 [] ?F = cleanupGame ''g1'' (?F\<lparr>timers := (timers ?F)(3 := None)\<rparr>)"
    by (rule fire_cleanup [where t = ?t]) (simp_all add: active_server_end)
  have ap: "activePlayers ?F = activePlayers active_server"
    by (simp add: fire_def run_callback_def endSprintGame_frame active_server_def)
  have a: "sprintGames (fire 3 46000 [] ?F) ''g1'' = None"
    by (simp add: eq cleanupGame_def)
  have b: "activePlayers (fire 3 46000 [] ?F) ''s1'' = Some (''g1'', Some ''alice'')"
    by (simp add: eq cleanupGame_def ap) (simp add: active_server_def demo_server_def)
  have c: "disconnect ''s1'' (fire 3 46000 [] ?F) = fire 3 46000 [] ?F"
    using a b by (simp add: disconnect_def)
  from a b c show ?thesis by simp
qed

text \<open>
  Tracker and players Maps also part when one socket joins two games: the tracker is
  overwritten with the second game, and the first game keeps the socket as a player.
\<close>

lemma two_games:
  "activePlayers (run [EvCreate ''1'' ''a'', EvCreate ''2'' ''b'',
       EvJoin ''s1'' (Some \<lparr>d_gameId = ''sprint_1_a'', d_username = None, d_caller = None\<rparr>),
       EvJoin ''s1'' (Some \<lparr>d_gameId = ''sprint_2_b'', d_username = None, d_caller = None\<rparr>)]
       init_server) ''s1'' = Some (''sprint_2_b'', None)
   \<and> sprintGames (run [EvCreate ''1'' ''a'', EvCreate ''2'' ''b'',
       EvJoin ''s1'' (Some \<lparr>d_gameId = ''sprint_1_a'', d_username = None, d_caller = None\<rparr>),
       EvJoin ''s1'' (Some \<lparr>d_gameId = ''sprint_2_b'', d_username = None, d_caller = None\<rparr>)]
       init_server) ''sprint_1_a'' = Some 0
   \<and> map fst (players (heap (run [EvCreate ''1'' ''a'', EvCreate ''2'' ''b'',
       EvJoin ''s1'' (Some \<lparr>d_gameId = ''sprint_1_a'', d_username = None, d_caller = None\<rparr>),
       EvJoin ''s1'' (Some \<lparr>d_gameId = ''sprint_2_b'', d_username = None, d_caller = None\<rparr>)]
       init_server) 0)) = [''s1'']"
  by (simp add: run_def createGame_def join_sprint_def startSprintCountdown_def Let_def prim_defs
      init_server_def new_game_def Map_set_def Map_size_def Map_values_def)

section \<open>From countdown to finish\<close>

lemma run_append: "run (xs @ ys) st = run ys (run xs st)"
  by (simp add: run_def)

lemma run_Cons: "run (ev # evs) st = run evs (step ev st)"
  by (simp add: run_def)

lemma run_Nil: "run [] st = st"
  by (simp add: run_def)

text \<open>A disconnect changes the players of a game and nothing else of it.\<close>

lemma disconnect_game:
  "status (heap (disconnect sid st) r) = status (heap st r)"
  "countdown (heap (disconnect sid st) r) = countdown (heap st r)"
  "gameDuration (heap (disconnect sid st) r) = gameDuration (heap st r)"
  by (simp_all add: disconnect_def Let_def prim_defs split: option.splits)

lemma disconnects_keep:
  "timers (run (map EvDisconnect ds) st) = timers st"
  "next_timer (run (map EvDisconnect ds) st) = next_timer st"
  "sprintGames (run (map EvDisconnect ds) st) = sprintGames st"
  "sprint_results (run (map EvDisconnect ds) st) = sprint_results st"
  "status (heap (run (map EvDisconnect ds) st) r) = status (heap st r)"
  "countdown (heap (run (map EvDisconnect ds) st) r) = countdown (heap st r)"
  "gameDuration (heap (run (map EvDisconnect ds) st) r) = gameDuration (heap st r)"
  by (induction ds arbitrary: st; simp add: run_Nil run_Cons disconnect_frame disconnect_game)+

text \<open>The countdown invariant: the interval is pending, the game registered, the counter known.\<close>

lemma tick_above_zero:
  assumes "timers st h = Some t" "callback t = CountdownTick g r" "repeat t"
    and "countdown (heap st r) = int (Suc n)"
  shows "timers (fire h now writes st) = timers st"
    "next_timer (fire h now writes st) = next_timer st"
    "sprintGames (fire h now writes st) = sprintGames st"
    "sprint_results (fire h now writes st) = sprint_results st"
    "countdown (heap (fire h now writes st) r) = int n"
    "gameDuration (heap (fire h now writes st) r) = gameDuration (heap st r)"
proof -
  have pos: "0 < countdown (heap st r)" using assms(4) by simp
  have eq: "fire h now writes st = update_game r (\<lambda>game. game\<lparr>countdown := countdown game - 1\<rparr>)
       (emit (ToRoom g) (CountdownEv (countdown (heap st r))) st)"
    by (simp add: fire_tick [OF assms(1-3)] tick_counting [OF pos])
  show "timers (fire h now writes st) = timers st"
    "next_timer (fire h now writes st) = next_timer st"
    "sprintGames (fire h now writes st) = sprintGames st"
    "sprint_results (fire h now writes st) = sprint_results st"
    "countdown (heap (fire h now writes st) r) = int n"
    "gameDuration (heap (fire h now writes st) r) = gameDuration (heap st r)"
    using assms(4) by (simp_all add: eq prim_defs)
qed

lemma tick_at_zero:
  assumes "timers st h = Some t" "callback t = CountdownTick g r" "repeat t"
    and "sprintGames st g = Some r" and "countdown (heap st r) = 0"
  shows "status (heap (fire h now writes st) r) = Active"
    "timers (fire h now writes st) (next_timer st)
       = Some \<lparr>delay = gameDuration (heap st r), repeat = False, callback = EndGame g\<rparr>"
    "sprintGames (fire h now writes st) = sprintGames st"
    "sprint_results (fire h now writes st) = sprint_results st"
proof -
  let ?mid = "clearInterval h
       (update_game r (\<lambda>game. game\<lparr>countdown := countdown game - 1\<rparr>)
         (emit (ToRoom g) (CountdownEv (countdown (heap st r))) st))"
  have le: "countdown (heap st r) \<le> 0" using assms(5) by simp
  have eq: "fire h now writes st = startSprintGame g now ?mid"
    by (simp add: fire_tick [OF assms(1-3)] tick_starting [OF le])
  have regm: "sprintGames ?mid g = Some r"
    by (simp add: prim_defs assms(4))
  show "status (heap (fire h now writes st) r) = Active"
    by (simp add: eq startSprintGame_registered [OF regm])
  show "timers (fire h now writes st) (next_timer st)
       = Some \<lparr>delay = gameDuration (heap st r), repeat = False, callback = EndGame g\<rparr>"
    by (simp add: eq startSprintGame_registered [OF regm]) (simp add: prim_defs)
  show "sprintGames (fire h now writes st) = sprintGames st"
    "sprint_results (fire h now writes st) = sprint_results st"
    by (simp_all add: eq startSprintGame_frame) (simp_all add: prim_defs)
qed

lemma countdown_reaches_active:
  assumes "timers st h = Some t" "callback t = CountdownTick g r" "repeat t"
    and "sprintGames st g = Some r"
    and "countdown (heap st r) = int n" and "length rounds = Suc n"
  shows "status (heap (run (ticks_amid_disconnects h rounds) st) r) = Active
    \<and> timers (run (ticks_amid_disconnects h rounds) st) (next_timer st)
       = Some \<lparr>delay = gameDuration (heap st r), repeat = False, callback = EndGame g\<rparr>
    \<and> sprintGames (run (ticks_amid_disconnects h rounds) st) = sprintGames st
    \<and> sprint_results (run (ticks_amid_disconnects h rounds) st) = sprint_results st"
  using assms
proof (induction n arbitrary: st rounds)
  case 0
  then obtain ds now where rounds: "rounds = [(ds, now)]"
    by (cases rounds) (auto simp add: length_Suc_conv)
  let ?d = "run (map EvDisconnect ds) st"
  have pend: "timers ?d h = Some t" and reg: "sprintGames ?d g = Some r"
    and cnt: "countdown (heap ?d r) = 0"
    using "0.prems" by (simp_all add: disconnects_keep)
  have run: "run (ticks_amid_disconnects h rounds) st = fire h now [] ?d"
    by (simp add: rounds run_append run_Cons run_Nil)
  show ?case
    using tick_at_zero [OF pend "0.prems"(2,3) reg cnt, of now "[]"]
    by (simp add: run disconnects_keep)
next
  case (Suc n)
  then obtain ds now rest where rounds: "rounds = (ds, now) # rest" and len: "length rest = Suc n"
    by (cases rounds) auto
  let ?d = "run (map EvDisconnect ds) st"
  let ?f = "fire h now [] ?d"
  have pend: "timers ?d h = Some t" and cnt: "countdown (heap ?d r) = int (Suc n)"
    using Suc.prems by (simp_all add: disconnects_keep)
  note tick = tick_above_zero [OF pend Suc.prems(2,3) cnt, of now "[]"]
  have pend': "timers ?f h = Some t" and reg': "sprintGames ?f g = Some r"
    and cnt': "countdown (heap ?f r) = int n"
    using Suc.prems by (simp_all add: tick disconnects_keep)
  have run: "run (ticks_amid_disconnects h rounds) st = run (ticks_amid_disconnects h rest) ?f"
    by (simp add: rounds run_append run_Cons)
  show ?case
    using Suc.IH [OF pend' Suc.prems(2,3) reg' cnt' len]
    by (simp add: run tick disconnects_keep)
qed

lemma fire_end:
  assumes "timers st h = Some t" and "callback t = EndGame g" and "\<not> repeat t"
  shows "fire h now writes st = endSprintGame g writes (st\<lparr>timers := (timers st)(h := None)\<rparr>)"
  using assms by (simp add: fire_def run_callback_def)

lemma endSprintGame_registered:
  assumes "sprintGames st g = Some r"
  shows "status (heap (endSprintGame g writes st) r) = Finished"
    "players (heap (endSprintGame g writes st) r) = players (heap st r)"
  using assms by (simp_all add: endSprintGame_def Let_def prim_defs save_results_fields)

lemma endSprintGame_players:
  "players (heap (endSprintGame g writes st) r) = players (heap st r)"
  by (simp add: endSprintGame_def Let_def prim_defs save_results_fields split: option.splits)

lemma endSprintGame_empty:
  assumes "sprintGames st g = Some r" and "players (heap st r) = []"
  shows "sprint_results (endSprintGame g writes st) = sprint_results st"
    "console_errors (endSprintGame g writes st) = console_errors st"
    "emitted (endSprintGame g writes st) = emitted st @ [(ToRoom g, GameEnded [] None)]"
  using assms
  by (simp_all add: endSprintGame_def Let_def prim_defs Map_values_def Array_sort_def first_elem_def)

text \<open>
  C10. Take a registered game whose countdown interval is pending and whose counter is
  \<open>n\<close>, as \<^verbatim>\<open>startSprintCountdown\<close> leaves it with \<open>n = 5\<close>. Let the interval run
  \<open>n + 1\<close> times, any sockets disconnecting before each run: the game is then active and
  the end of its window is scheduled after its duration. Let any sockets disconnect and
  that timer run: the game is finished. No premise mentions the players. If no player
  is left at that moment, no row has been written and the last broadcast is the end of
  the game with an empty result list and no winner.
\<close>

theorem phases_by_timers:
  assumes pend: "timers st h = Some t" "callback t = CountdownTick g r" "repeat t"
    and reg: "sprintGames st g = Some r"
    and cnt: "countdown (heap st r) = int n" and len: "length rounds = Suc n"
    and st1: "st1 = run (ticks_amid_disconnects h rounds) st"
    and st2: "st2 = run (map EvDisconnect ds @ [EvFire (next_timer st) now writes]) st1"
  shows "status (heap st1 r) = Active
    \<and> timers st1 (next_timer st)
         = Some \<lparr>delay = gameDuration (heap st r), repeat = False, callback = EndGame g\<rparr>
    \<and> status (heap st2 r) = Finished
    \<and> (players (heap st2 r) = [] \<longrightarrow>
          sprint_results st2 = sprint_results st
          \<and> last (emitted st2) = (ToRoom g, GameEnded [] None))"
proof -
  let ?end = "\<lparr>delay = gameDuration (heap st r), repeat = False, callback = EndGame g\<rparr>"
  note A = countdown_reaches_active [OF pend reg cnt len, folded st1]
  have act: "status (heap st1 r) = Active" and tm: "timers st1 (next_timer st) = Some ?end"
    and reg1: "sprintGames st1 g = Some r" and rows1: "sprint_results st1 = sprint_results st"
    using A reg by simp_all
  define d where "d = run (map EvDisconnect ds) st1"
  define d' where "d' = d\<lparr>timers := (timers d)(next_timer st := None)\<rparr>"
  have tmd: "timers d (next_timer st) = Some ?end"
    and regd: "sprintGames d' g = Some r" and rowsd: "sprint_results d' = sprint_results st"
    by (simp_all add: d_def d'_def disconnects_keep tm reg1 rows1)
  have "st2 = fire (next_timer st) now writes d"
    by (simp add: st2 d_def run_append run_Cons run_Nil)
  then have eq: "st2 = endSprintGame g writes d'"
    using fire_end [OF tmd, of g now writes] by (simp add: d'_def)
  have fin: "status (heap st2 r) = Finished"
    by (simp add: eq endSprintGame_registered [OF regd])
  have empty: "players (heap st2 r) = [] \<longrightarrow>
          sprint_results st2 = sprint_results st
          \<and> last (emitted st2) = (ToRoom g, GameEnded [] None)"
  proof
    assume "players (heap st2 r) = []"
    then have e: "players (heap d' r) = []"
      by (simp add: eq endSprintGame_registered [OF regd])
    show "sprint_results st2 = sprint_results st
          \<and> last (emitted st2) = (ToRoom g, GameEnded [] None)"
      by (simp add: eq endSprintGame_empty [OF regd e] rowsd)
  qed
  from act tm fin empty show ?thesis by simp
qed

text \<open>
  On the example game with the counter at 1: alice leaves before the first tick, bob
  and carol before the second; the game becomes active with no player, and finishes.
\<close>

theorem phases_by_timers_witness:
  "timers (countdown_server 1) 0
      = Some \<lparr>delay = 1000, repeat = True, callback = CountdownTick ''g1'' 0\<rparr>
   \<and> sprintGames (countdown_server 1) ''g1'' = Some 0
   \<and> countdown (heap (countdown_server 1) 0) = 1
   \<and> status (heap (run (ticks_amid_disconnects 0 [([''s1''], 1000), ([''s2'', ''s3''], 2000)])
         (countdown_server 1)) 0) = Active
   \<and> players (heap (run (ticks_amid_disconnects 0 [([''s1''], 1000), ([''s2'', ''s3''], 2000)])
         (countdown_server 1)) 0) = []
   \<and> status (heap (run [EvFire 1 17000 []]
         (run (ticks_amid_disconnects 0 [([''s1''], 1000), ([''s2'', ''s3''], 2000)])
           (countdown_server 1))) 0) = Finished
   \<and> sprint_results (run [EvFire 1 17000 []]
         (run (ticks_amid_disconnects 0 [([''s1''], 1000), ([''s2'', ''s3''], 2000)])
           (countdown_server 1))) = []
   \<and> last (emitted (run [EvFire 1 17000 []]
         (run (ticks_amid_disconnects 0 [([''s1''], 1000), ([''s2'', ''s3''], 2000)])
           (countdown_server 1)))) = (ToRoom ''g1'', GameEnded [] None)"
proof -
  let ?rounds = "[([''s1''], 1000), ([''s2'', ''s3''], 2000)] :: (socketId list \<times> int) list"
  let ?st1 = "run (ticks_amid_disconnects 0 ?rounds) (countdown_server 1)"
  let ?st2 = "run [EvFire 1 17000 []] ?st1"
  have cb: "callback \<lparr>delay = 1000, repeat = True, callback = CountdownTick ''g1'' 0\<rparr>
      = CountdownTick ''g1'' 0"
    and rp: "repeat \<lparr>delay = 1000, repeat = True, callback = CountdownTick ''g1'' 0\<rparr>"
    by simp_all
  have cnt: "countdown (heap (countdown_server 1) 0) = int 1"
    by (simp add: countdown_server_fields)
  have len: "length ?rounds = Suc 1" by simp
  have st2: "?st2 = run (map EvDisconnect [] @ [EvFire (next_timer (countdown_server 1)) 17000 []]) ?st1"
    by (simp add: countdown_server_fields)
  note T = phases_by_timers [OF countdown_server_fields(2) cb rp countdown_server_fields(1) cnt len
      refl st2]
  have pl: "players (heap ?st1 0) = []"
    by (simp add: run_def fire_def run_callback_def countdownTick_def startSprintGame_def
        disconnect_def Let_def prim_defs countdown_server_def demo_server_def demo_game_def
        Map_delete_def Map_values_def)
  have tm: "timers ?st1 (next_timer (countdown_server 1))
      = Some \<lparr>delay = gameDuration (heap (countdown_server 1) 0), repeat = False,
               callback = EndGame ''g1''\<rparr>"
    by (rule T [THEN conjunct2, THEN conjunct1])
  have "?st2 = fire (next_timer (countdown_server 1)) 17000 [] ?st1"
    by (simp add: run_Cons run_Nil countdown_server_fields)
  then have keep: "players (heap ?st2 0) = players (heap ?st1 0)"
    using fire_end [OF tm, of "''g1''" 17000 "[]"] by (simp add: endSprintGame_players)
  have rows0: "sprint_results (countdown_server 1) = []"
    by (simp add: countdown_server_def demo_server_def)
  have e: "players (heap ?st2 0) = []" using keep pl by simp
  from T [THEN conjunct2, THEN conjunct2, THEN conjunct2, rule_format, OF e]
    T [THEN conjunct1] T [THEN conjunct2, THEN conjunct2, THEN conjunct1]
    countdown_server_fields(1,2,5) [of 1] pl rows0
  show ?thesis by (intro conjI) simp_all
qed

section \<open>The registry in the states the server reaches\<close>

text \<open>
  Every state that the server reaches from start-up has its registry in order: a game id
  names one game object, which is what the count of accepted taps relies on.
\<close>

lemma fire_registry:
  "next_ref (fire h now writes st) = next_ref st"
  "sprintGames (fire h now writes st) g = Some r \<Longrightarrow> sprintGames st g = Some r"
  by (auto simp add: fire_def run_callback_def countdownTick_frame endSprintGame_frame
      cleanupGame_def split: option.splits callback.splits if_splits)

lemma registry_okD:
  assumes "registry_ok st" and "sprintGames st g = Some r"
  shows "r < next_ref st" and "sprintGames st g' = Some r \<Longrightarrow> g' = g"
proof -
  from assms have both: "r < next_ref st \<and> (\<forall>g'. sprintGames st g' = Some r \<longrightarrow> g' = g)"
    unfolding registry_ok_def by (elim allE [of _ g] allE [of _ r] impE) assumption+
  then show "r < next_ref st" by (rule conjunct1)
  from both have "\<forall>g'. sprintGames st g' = Some r \<longrightarrow> g' = g" by (rule conjunct2)
  then show "sprintGames st g' = Some r \<Longrightarrow> g' = g" by (elim allE [of _ g'] impE) assumption+
qed

lemma registry_okI:
  assumes "\<And>g r. sprintGames st g = Some r \<Longrightarrow> r < next_ref st"
    and "\<And>g g' r. sprintGames st g = Some r \<Longrightarrow> sprintGames st g' = Some r \<Longrightarrow> g' = g"
  shows "registry_ok st"
  unfolding registry_ok_def
proof (intro allI impI conjI)
  fix g r assume "sprintGames st g = Some r"
  then show "r < next_ref st" by (rule assms(1))
next
  fix g r g' assume "sprintGames st g = Some r" and "sprintGames st g' = Some r"
  then show "g' = g" by (rule assms(2))
qed

lemma registry_ok_shrink:
  assumes ok: "registry_ok st" and nr: "next_ref st' = next_ref st"
    and sub: "\<And>g r. sprintGames st' g = Some r \<Longrightarrow> sprintGames st g = Some r"
  shows "registry_ok st'"
proof (rule registry_okI)
  fix g r assume "sprintGames st' g = Some r"
  then have "sprintGames st g = Some r" by (rule sub)
  then have "r < next_ref st" by (rule registry_okD(1) [OF ok])
  then show "r < next_ref st'" by (simp only: nr)
next
  fix g g' r assume a: "sprintGames st' g = Some r" and b: "sprintGames st' g' = Some r"
  have "sprintGames st g = Some r" using a by (rule sub)
  moreover have "sprintGames st g' = Some r" using b by (rule sub)
  ultimately show "g' = g" by (rule registry_okD(2) [OF ok])
qed

lemma createGame_registry_ok:
  assumes ok: "registry_ok st"
  shows "registry_ok (snd (createGame ts rnd st))"
proof (rule registry_okI)
  let ?id = "''sprint_'' @ ts @ ''_'' @ rnd"
  let ?st' = "snd (createGame ts rnd st)"
  have reg: "\<And>g. sprintGames ?st' g = (if g = ?id then Some (next_ref st) else sprintGames st g)"
    and nr: "next_ref ?st' = Suc (next_ref st)"
    by (simp_all add: createGame_def Let_def)
  {
    fix g r assume a: "sprintGames ?st' g = Some r"
    show "r < next_ref ?st'"
    proof (cases "g = ?id")
      case True
      then show ?thesis using a by (simp add: reg nr)
    next
      case False
      then have "sprintGames st g = Some r" using a by (simp add: reg)
      then have "r < next_ref st" by (rule registry_okD(1) [OF ok])
      then show ?thesis by (simp add: nr)
    qed
  next
    fix g g' r assume a: "sprintGames ?st' g = Some r" and b: "sprintGames ?st' g' = Some r"
    have old: "\<And>x. x \<noteq> ?id \<Longrightarrow> sprintGames ?st' x = Some r \<Longrightarrow> r < next_ref st"
    proof -
      fix x assume "x \<noteq> ?id" and "sprintGames ?st' x = Some r"
      then have "sprintGames st x = Some r" by (simp add: reg)
      then show "r < next_ref st" by (rule registry_okD(1) [OF ok])
    qed
    show "g' = g"
    proof (cases "g = ?id")
      case True
      then have r: "r = next_ref st" using a by (simp add: reg)
      have "g' = ?id"
      proof (rule ccontr)
        assume "g' \<noteq> ?id"
        then have "r < next_ref st" using b by (rule old)
        then show False using r by simp
      qed
      then show ?thesis using True by simp
    next
      case False
      then have ga: "sprintGames st g = Some r" using a by (simp add: reg)
      then have lt: "r < next_ref st" by (rule registry_okD(1) [OF ok])
      have "g' \<noteq> ?id"
      proof
        assume "g' = ?id"
        then have "r = next_ref st" using b by (simp add: reg)
        then show False using lt by simp
      qed
      then have "sprintGames st g' = Some r" using b by (simp add: reg)
      with ga show ?thesis by (rule registry_okD(2) [OF ok])
    qed
  }
qed

lemma step_registry_ok:
  assumes ok: "registry_ok st"
  shows "registry_ok (step ev st)"
proof (cases ev)
  case (EvCreate ts rnd)
  have "registry_ok (snd (createGame ts rnd st))"
    using ok by (rule createGame_registry_ok)
  then show ?thesis by (simp only: EvCreate step.simps)
next
  case (EvJoin sid data)
  have "registry_ok (join_sprint sid data st)"
    using ok by (rule registry_ok_shrink) (simp_all only: join_sprint_frame)
  then show ?thesis by (simp only: EvJoin step.simps)
next
  case (EvTap sid data)
  have "registry_ok (tap sid data st)"
    using ok by (rule registry_ok_shrink) (simp_all only: tap_frame)
  then show ?thesis by (simp only: EvTap step.simps)
next
  case (EvDisconnect sid)
  have "registry_ok (disconnect sid st)"
    using ok by (rule registry_ok_shrink) (simp_all only: disconnect_frame)
  then show ?thesis by (simp only: EvDisconnect step.simps)
next
  case (EvFire h now writes)
  have "registry_ok (fire h now writes st)"
    using ok
  proof (rule registry_ok_shrink)
    show "next_ref (fire h now writes st) = next_ref st"
      by (rule fire_registry(1))
    fix g r assume "sprintGames (fire h now writes st) g = Some r"
    then show "sprintGames st g = Some r" by (rule fire_registry(2))
  qed
  then show ?thesis by (simp only: EvFire step.simps)
qed

lemma run_registry_ok:
  assumes "registry_ok st"
  shows "registry_ok (run evs st)"
  using assms
proof (induction evs arbitrary: st)
  case Nil
  then show ?case by (simp only: run_Nil)
next
  case (Cons ev evs)
  have "registry_ok (step ev st)"
    using Cons.prems by (rule step_registry_ok)
  then have "registry_ok (run evs (step ev st))"
    by (rule Cons.IH)
  then show ?case by (simp only: run_Cons)
qed

lemma reachable_registry_ok: "registry_ok (run evs init_server)"
proof (rule run_registry_ok)
  show "registry_ok init_server"
    by (rule registry_okI) (simp_all add: init_server_def)
qed

lemma reachable_one_object:
  assumes "sprintGames (run evs init_server) g = Some r"
  shows "\<forall>g'. sprintGames (run evs init_server) g' = Some r \<longrightarrow> g' = g"
proof (intro allI impI)
  fix g' assume "sprintGames (run evs init_server) g' = Some r"
  with reachable_registry_ok assms show "g' = g" by (rule registry_okD(2))
qed

section \<open>The persisted rows\<close>

text \<open>Every row that is written names the game and carries no user.\<close>

lemma endSprintGame_new_rows:
  "\<exists>new. mset (sprint_results (endSprintGame g ws st)) = mset (sprint_results st) + mset new
     \<and> (\<forall>row \<in> set new. user_id row = None \<and> game_id row = g)"
proof (cases "sprintGames st g")
  case None
  then have "mset (sprint_results (endSprintGame g ws st)) = mset (sprint_results st) + mset []"
    by (simp add: endSprintGame_def)
  moreover have "\<forall>row \<in> set []. user_id row = None \<and> game_id row = g"
    by simp
  ultimately show ?thesis by blast
next
  case (Some r)
  let ?new = "map (\<lambda>p. \<lparr>game_id = g, user_id = None, row_taps = taps p\<rparr>)
      (landed ws (Map_values (players (heap st r))))"
  have "mset (sprint_results (endSprintGame g ws st)) = mset (sprint_results st) + mset ?new"
    by (rule endSprintGame_table [OF Some])
  moreover have "\<forall>row \<in> set ?new. user_id row = None \<and> game_id row = g"
    by auto
  ultimately show ?thesis by blast
qed

text \<open>An event that does not end a game window writes nothing.\<close>

lemma step_writes_nothing:
  assumes "\<not> ends_window ev st"
  shows "sprint_results (step ev st) = sprint_results st"
proof (cases ev)
  case (EvCreate ts rnd)
  then show ?thesis by (simp add: createGame_def Let_def)
next
  case (EvJoin sid data)
  then show ?thesis by (simp add: join_sprint_frame)
next
  case (EvTap sid data)
  then show ?thesis by (simp add: tap_frame)
next
  case (EvDisconnect sid)
  then show ?thesis by (simp add: disconnect_frame)
next
  case (EvFire h now writes)
  then show ?thesis using assms
    by (auto simp add: ends_window_def fire_def run_callback_def countdownTick_frame cleanupGame_def
        split: option.splits callback.splits)
qed

lemma step_rows_anonymous:
  assumes "\<forall>row \<in> set (sprint_results st). user_id row = None"
  shows "\<forall>row \<in> set (sprint_results (step ev st)). user_id row = None"
proof (cases "ends_window ev st")
  case False
  then show ?thesis using assms by (simp add: step_writes_nothing)
next
  case True
  then obtain h now writes t g where ev: "ev = EvFire h now writes" and t: "timers st h = Some t"
    and cb: "callback t = EndGame g"
    by (auto simp add: ends_window_def split: event.splits option.splits callback.splits)
  let ?st = "if repeat t then st else st\<lparr>timers := (timers st)(h := None)\<rparr>"
  obtain new where new: "mset (sprint_results (endSprintGame g writes ?st))
      = mset (sprint_results ?st) + mset new"
    "\<forall>row \<in> set new. user_id row = None \<and> game_id row = g"
    using endSprintGame_new_rows [of g writes ?st] by auto
  have "mset (sprint_results (step ev st)) = mset (sprint_results st @ new)"
    using ev t cb new(1) by (simp add: fire_def run_callback_def)
  then have "set (sprint_results (step ev st)) = set (sprint_results st @ new)"
    by (rule mset_eq_setD)
  then show ?thesis using assms new(2) by auto
qed

lemma run_rows_anonymous:
  assumes "\<forall>row \<in> set (sprint_results st). user_id row = None"
  shows "\<forall>row \<in> set (sprint_results (run evs st)). user_id row = None"
  using assms
proof (induction evs arbitrary: st)
  case Nil
  then show ?case by (simp add: run_def)
next
  case (Cons ev evs)
  have "\<forall>row \<in> set (sprint_results (run evs (step ev st))). user_id row = None"
    using Cons.prems by (intro Cons.IH step_rows_anonymous)
  then show ?case by (simp add: run_def)
qed

lemma join_ignores_caller:
  "join_sprint sid (Some (d\<lparr>d_caller := c\<rparr>)) st = join_sprint sid (Some d) st"
  by (simp add: join_sprint_def Let_def split: option.splits)

lemma alice_run_rows:
  "sprint_results (run alice_run init_server)
     = [\<lparr>game_id = ''sprint_1_a'', user_id = None, row_taps = 1\<rparr>]"
  by (simp add: alice_run_def run_def createGame_def join_sprint_def startSprintCountdown_def
      fire_def run_callback_def countdownTick_def startSprintGame_def endSprintGame_def tap_def
      Let_def prim_defs init_server_def new_game_def Map_set_def Map_get_def Map_size_def
      Map_values_def db_run_insert_def land_row_def write_for_def display_name_def)

subsection \<open>A session finishes once\<close>

text \<open>No event takes the status of an allocated game object back to waiting.\<close>

lemma step_not_back_to_waiting:
  assumes "r < next_ref st" and "status (heap (step ev st) r) = Waiting"
  shows "status (heap st r) = Waiting"
proof (cases ev)
  case (EvCreate ts rnd)
  then show ?thesis using assms by (simp add: createGame_def Let_def split: if_splits)
next
  case (EvJoin sid data)
  then show ?thesis using assms(2)
    by (simp add: join_sprint_def startSprintCountdown_def Let_def prim_defs
        split: option.splits if_splits)
next
  case (EvTap sid data)
  then show ?thesis using assms(2)
    by (simp add: tap_def Let_def prim_defs split: option.splits if_splits)
next
  case (EvDisconnect sid)
  then show ?thesis using assms(2) by (simp add: disconnect_game)
next
  case (EvFire h now writes)
  then show ?thesis using assms(2)
    by (simp add: fire_def run_callback_def countdownTick_def startSprintGame_def endSprintGame_def
        cleanupGame_def save_results_fields Let_def prim_defs
        split: option.splits callback.splits if_splits)
qed

text \<open>
  Four ways in which an event can change the timers of a game and its waiting: it adds
  nothing; it arms a waiting game; it replaces the one pending timer by another; it
  takes the one pending timer away.
\<close>

lemma shrink_case:
  assumes "\<And>h. live_handle g st' h \<Longrightarrow> live_handle g st h"
    and "waiting_game g st' \<Longrightarrow> waiting_game g st"
  shows "(one_finish g st \<longrightarrow> one_finish g st') \<and> (no_finish g st \<longrightarrow> no_finish g st')"
  unfolding one_finish_def no_finish_def using assms by blast

lemma arm_case:
  assumes "waiting_game g st" and "\<not> waiting_game g st'"
    and "\<And>h. live_handle g st' h \<Longrightarrow> live_handle g st h \<or> h = n"
  shows "(one_finish g st \<longrightarrow> one_finish g st') \<and> \<not> no_finish g st"
  unfolding one_finish_def no_finish_def using assms by blast

lemma start_case:
  assumes "live_handle g st h0" and "\<not> waiting_game g st'"
    and "\<And>h. live_handle g st' h \<Longrightarrow> (live_handle g st h \<and> h \<noteq> h0) \<or> h = n"
  shows "(one_finish g st \<longrightarrow> one_finish g st') \<and> \<not> no_finish g st"
  unfolding one_finish_def no_finish_def using assms by blast

lemma finish_case:
  assumes "live_handle g st h0" and "\<not> waiting_game g st'"
    and "\<And>h. live_handle g st' h \<Longrightarrow> live_handle g st h \<and> h \<noteq> h0"
  shows "(one_finish g st \<longrightarrow> no_finish g st') \<and> \<not> no_finish g st"
  unfolding one_finish_def no_finish_def using assms by blast

text \<open>The registry gains an id by a creation only.\<close>

lemma step_registry_back:
  assumes "g \<notin> set (created_ids [ev])" and "sprintGames (step ev st) g = Some r"
  shows "sprintGames st g = Some r"
proof (cases ev)
  case (EvCreate ts rnd)
  then show ?thesis using assms by (simp add: createGame_def Let_def split: if_splits)
next
  case (EvJoin sid data)
  then show ?thesis using assms(2) by (simp add: join_sprint_frame)
next
  case (EvTap sid data)
  then show ?thesis using assms(2) by (simp add: tap_frame)
next
  case (EvDisconnect sid)
  then show ?thesis using assms(2) by (simp add: disconnect_frame)
next
  case (EvFire h now writes)
  then show ?thesis using assms(2) fire_registry(2) [of h now writes st g r] by simp
qed

lemma step_waiting_back:
  assumes ok: "registry_ok st" and g: "g \<notin> set (created_ids [ev])"
    and w: "waiting_game g (step ev st)"
  shows "waiting_game g st"
proof -
  from w obtain r where r: "sprintGames (step ev st) g = Some r"
    and s: "status (heap (step ev st) r) = Waiting"
    by (auto simp add: waiting_game_def split: option.splits)
  have reg: "sprintGames st g = Some r" using g r by (rule step_registry_back)
  then have "r < next_ref st" by (rule registry_okD(1) [OF ok])
  then have "status (heap st r) = Waiting" using s by (rule step_not_back_to_waiting)
  then show ?thesis using reg by (simp add: waiting_game_def)
qed

text \<open>A timer that ends a game is set by \<^verbatim>\<open>setTimeout\<close>: it runs once.\<close>

lemma step_timers_ok:
  assumes "timers_ok st"
  shows "timers_ok (step ev st)"
proof -
  have keep: "\<And>st'. timers st' = timers st \<Longrightarrow> timers_ok st'"
    using assms by (simp add: timers_ok_def)
  show ?thesis
  proof (cases ev)
    case (EvCreate ts rnd)
    then show ?thesis by (intro keep) (simp add: createGame_def Let_def)
  next
    case (EvJoin sid data)
    then show ?thesis using assms
      by (auto simp add: timers_ok_def join_sprint_def startSprintCountdown_def Let_def prim_defs
          split: option.splits if_splits)
  next
    case (EvTap sid data)
    then show ?thesis by (intro keep) (simp add: tap_frame)
  next
    case (EvDisconnect sid)
    then show ?thesis by (intro keep) (simp add: disconnect_frame)
  next
    case (EvFire h now writes)
    then show ?thesis using assms
      by (auto simp add: timers_ok_def fire_def run_callback_def countdownTick_def
          startSprintGame_def endSprintGame_def cleanupGame_def save_results_fields Let_def
          prim_defs split: option.splits callback.splits if_splits)
  qed
qed

lemmas fire_unfold = fire_def run_callback_def countdownTick_def startSprintGame_def
  endSprintGame_def cleanupGame_def save_results_fields Let_def prim_defs

lemma live_handle_same:
  assumes "timers st' = timers st"
  shows "live_handle g st' h = live_handle g st h"
  by (simp add: live_handle_def assms)

lemma tick_live_other:
  assumes "timers st h = Some t" and "callback t = CountdownTick g' r'" and "g' \<noteq> g"
    and "live_handle g (fire h now ws st) h'"
  shows "live_handle g st h'"
  using assms
  by (auto simp add: live_handle_def fire_unfold split: option.splits callback.splits if_splits)

lemma tick_live_counting:
  assumes "timers st h = Some t" and "callback t = CountdownTick g r'"
    and "\<not> (countdown (heap st r') \<le> 0 \<and> sprintGames st g \<noteq> None)"
    and "live_handle g (fire h now ws st) h'"
  shows "live_handle g st h'"
  using assms
  by (auto simp add: live_handle_def fire_unfold split: option.splits callback.splits if_splits)

lemma tick_live_starting:
  assumes "timers st h = Some t" and "callback t = CountdownTick g r'"
    and "countdown (heap st r') \<le> 0" and "sprintGames st g \<noteq> None"
  shows "live_handle g (fire h now ws st) h'
      \<Longrightarrow> (live_handle g st h' \<and> h' \<noteq> h) \<or> h' = next_timer st"
    and "\<not> waiting_game g (fire h now ws st)"
  using assms
  by (auto simp add: live_handle_def waiting_game_def fire_unfold
      split: option.splits callback.splits if_splits)

lemma end_live_other:
  assumes "timers st h = Some t" and "callback t = EndGame g'"
    and "g' \<noteq> g \<or> sprintGames st g = None"
    and "live_handle g (fire h now ws st) h'"
  shows "live_handle g st h'"
  using assms
  by (auto simp add: live_handle_def fire_unfold split: option.splits callback.splits if_splits)

lemma end_live_finishing:
  assumes "timers st h = Some t" and "callback t = EndGame g" and "\<not> repeat t"
    and "sprintGames st g \<noteq> None"
  shows "live_handle g (fire h now ws st) h' \<Longrightarrow> live_handle g st h' \<and> h' \<noteq> h"
    and "\<not> waiting_game g (fire h now ws st)"
  using assms
  by (auto simp add: live_handle_def waiting_game_def fire_unfold
      split: option.splits callback.splits if_splits)

lemma cleanup_live:
  assumes "timers st h = Some t" and "callback t = Cleanup g'"
    and "live_handle g (fire h now ws st) h'"
  shows "live_handle g st h'"
  using assms
  by (auto simp add: live_handle_def fire_unfold split: option.splits callback.splits if_splits)

lemmas join_unfold = join_sprint_def startSprintCountdown_def Let_def prim_defs Map_set_size

lemma join_live_other:
  assumes "\<not> (\<exists>d. data = Some d \<and> d_gameId d = g \<and> waiting_game g st)"
    and "live_handle g (join_sprint sid data st) h'"
  shows "live_handle g st h'"
  using assms
  by (auto simp add: live_handle_def waiting_game_def join_unfold
      split: option.splits callback.splits if_splits)

lemma join_live_arming:
  assumes "data = Some d" and "d_gameId d = g" and "waiting_game g st"
  shows "live_handle g (join_sprint sid data st) h'
      \<Longrightarrow> live_handle g st h' \<or> h' = next_timer st"
    and "\<not> waiting_game g (join_sprint sid data st)"
  using assms
  by (auto simp add: live_handle_def waiting_game_def join_unfold
      split: option.splits callback.splits if_splits)

lemma finishing_fire:
  "finishing g (EvFire h now ws) st =
     (\<exists>t. timers st h = Some t \<and> callback t = EndGame g \<and> sprintGames st g \<noteq> None)"
  by (auto simp add: finishing_def split: option.splits)

lemma quiet_step:
  assumes ok: "registry_ok st" and g: "g \<notin> set (created_ids [ev])"
    and nf: "\<not> finishing g ev st"
    and sub: "\<And>h. live_handle g (step ev st) h \<Longrightarrow> live_handle g st h"
  shows "finish_step g ev st"
proof -
  have "waiting_game g (step ev st) \<Longrightarrow> waiting_game g st"
    using ok g by (rule step_waiting_back)
  with sub have "(one_finish g st \<longrightarrow> one_finish g (step ev st))
      \<and> (no_finish g st \<longrightarrow> no_finish g (step ev st))"
    by (rule shrink_case)
  then show ?thesis unfolding finish_step_def using nf by simp
qed

lemma same_timers_step:
  assumes ok: "registry_ok st" and g: "g \<notin> set (created_ids [ev])"
    and nf: "\<not> finishing g ev st" and same: "timers (step ev st) = timers st"
  shows "finish_step g ev st"
proof (rule quiet_step [OF ok g nf])
  fix h assume "live_handle g (step ev st) h"
  then show "live_handle g st h" by (simp only: live_handle_same [OF same])
qed


lemma create_step:
  assumes "registry_ok st" and "g \<notin> set (created_ids [EvCreate ts rnd])"
  shows "finish_step g (EvCreate ts rnd) st"
  using assms
proof (rule same_timers_step)
  show "\<not> finishing g (EvCreate ts rnd) st" by (simp add: finishing_def)
  show "timers (step (EvCreate ts rnd) st) = timers st" by (simp add: createGame_def Let_def)
qed

lemma tap_step:
  assumes "registry_ok st"
  shows "finish_step g (EvTap sid data) st"
  using assms
proof (rule same_timers_step)
  show "g \<notin> set (created_ids [EvTap sid data])" by simp
  show "\<not> finishing g (EvTap sid data) st" by (simp add: finishing_def)
  show "timers (step (EvTap sid data) st) = timers st" by (simp add: tap_frame)
qed

lemma disconnect_step:
  assumes "registry_ok st"
  shows "finish_step g (EvDisconnect sid) st"
  using assms
proof (rule same_timers_step)
  show "g \<notin> set (created_ids [EvDisconnect sid])" by simp
  show "\<not> finishing g (EvDisconnect sid) st" by (simp add: finishing_def)
  show "timers (step (EvDisconnect sid) st) = timers st" by (simp add: disconnect_frame)
qed

lemma join_step:
  assumes ok: "registry_ok st"
  shows "finish_step g (EvJoin sid data) st"
proof (cases "\<exists>d. data = Some d \<and> d_gameId d = g \<and> waiting_game g st")
  case False
  show ?thesis
  proof (rule quiet_step [OF ok])
    show "g \<notin> set (created_ids [EvJoin sid data])" by simp
    show "\<not> finishing g (EvJoin sid data) st" by (simp add: finishing_def)
    fix h assume "live_handle g (step (EvJoin sid data) st) h"
    then have "live_handle g (join_sprint sid data st) h" by simp
    with False show "live_handle g st h" by (rule join_live_other)
  qed
next
  case True
  then obtain d where d: "data = Some d" "d_gameId d = g" "waiting_game g st" by blast
  have nf: "\<not> finishing g (EvJoin sid data) st" by (simp add: finishing_def)
  have "(one_finish g st \<longrightarrow> one_finish g (join_sprint sid data st)) \<and> \<not> no_finish g st"
    using d(3) join_live_arming(2) [OF d] join_live_arming(1) [OF d]
    by (rule arm_case)
  then show ?thesis unfolding finish_step_def using nf by simp
qed

lemma fire_idle_step:
  assumes "timers st h = None"
  shows "finish_step g (EvFire h now ws) st"
proof -
  have "step (EvFire h now ws) st = st" by (simp add: fire_def assms)
  moreover have "\<not> finishing g (EvFire h now ws) st" by (simp add: finishing_fire assms)
  ultimately show ?thesis unfolding finish_step_def by simp
qed

lemma fire_cleanup_step:
  assumes ok: "registry_ok st" and t: "timers st h = Some t" and cb: "callback t = Cleanup g'"
  shows "finish_step g (EvFire h now ws) st"
proof (rule quiet_step [OF ok])
  show "g \<notin> set (created_ids [EvFire h now ws])" by simp
  show "\<not> finishing g (EvFire h now ws) st" by (simp add: finishing_fire t cb)
  fix h' assume "live_handle g (step (EvFire h now ws) st) h'"
  then have "live_handle g (fire h now ws st) h'" by simp
  with t cb show "live_handle g st h'" by (rule cleanup_live)
qed

lemma fire_tick_step:
  assumes ok: "registry_ok st" and t: "timers st h = Some t"
    and cb: "callback t = CountdownTick g' r'"
  shows "finish_step g (EvFire h now ws) st"
proof -
  have nf: "\<not> finishing g (EvFire h now ws) st" by (simp add: finishing_fire t cb)
  have noc: "g \<notin> set (created_ids [EvFire h now ws])" by simp
  show ?thesis
  proof (cases "g' = g")
    case False
    show ?thesis
    proof (rule quiet_step [OF ok noc nf])
      fix h' assume "live_handle g (step (EvFire h now ws) st) h'"
      then have "live_handle g (fire h now ws st) h'" by simp
      with t cb False show "live_handle g st h'" by (rule tick_live_other)
    qed
  next
    case True
    then have cbg: "callback t = CountdownTick g r'" using cb by simp
    show ?thesis
    proof (cases "countdown (heap st r') \<le> 0 \<and> sprintGames st g \<noteq> None")
      case False
      show ?thesis
      proof (rule quiet_step [OF ok noc nf])
        fix h' assume "live_handle g (step (EvFire h now ws) st) h'"
        then have "live_handle g (fire h now ws st) h'" by simp
        with t cbg False show "live_handle g st h'" by (rule tick_live_counting)
      qed
    next
      case True
      then have le: "countdown (heap st r') \<le> 0" and reg: "sprintGames st g \<noteq> None"
        by blast+
      have live: "live_handle g st h"
        by (simp add: live_handle_def t cbg)
      have "(one_finish g st \<longrightarrow> one_finish g (fire h now ws st)) \<and> \<not> no_finish g st"
        using live tick_live_starting(2) [OF t cbg le reg] tick_live_starting(1) [OF t cbg le reg]
        by (rule start_case)
      then show ?thesis unfolding finish_step_def using nf by simp
    qed
  qed
qed

lemma fire_end_step:
  assumes ok: "registry_ok st" and tok: "timers_ok st" and t: "timers st h = Some t"
    and cb: "callback t = EndGame g'"
  shows "finish_step g (EvFire h now ws) st"
proof (cases "g' = g \<and> sprintGames st g \<noteq> None")
  case False
  then have other: "g' \<noteq> g \<or> sprintGames st g = None" by blast
  show ?thesis
  proof (rule quiet_step [OF ok])
    show "g \<notin> set (created_ids [EvFire h now ws])" by simp
    show "\<not> finishing g (EvFire h now ws) st"
      using other by (auto simp add: finishing_fire t cb)
    fix h' assume "live_handle g (step (EvFire h now ws) st) h'"
    then have "live_handle g (fire h now ws st) h'" by simp
    with t cb other show "live_handle g st h'" by (rule end_live_other)
  qed
next
  case True
  then have cbg: "callback t = EndGame g" and reg: "sprintGames st g \<noteq> None"
    using cb by simp_all
  have once: "\<not> repeat t"
    using tok t cbg unfolding timers_ok_def by blast
  have fin: "finishing g (EvFire h now ws) st"
    by (simp add: finishing_fire t cbg reg)
  have live: "live_handle g st h"
    by (simp add: live_handle_def t cbg)
  have "(one_finish g st \<longrightarrow> no_finish g (fire h now ws st)) \<and> \<not> no_finish g st"
    using live end_live_finishing(2) [OF t cbg once reg] end_live_finishing(1) [OF t cbg once reg]
    by (rule finish_case)
  then show ?thesis unfolding finish_step_def using fin by simp
qed

lemma step_finish_invariant:
  assumes ok: "registry_ok st" and tok: "timers_ok st" and g: "g \<notin> set (created_ids [ev])"
  shows "finish_step g ev st"
proof (cases ev)
  case (EvCreate ts rnd)
  show ?thesis unfolding EvCreate using ok g [unfolded EvCreate] by (rule create_step)
next
  case (EvJoin sid data)
  show ?thesis unfolding EvJoin using ok by (rule join_step)
next
  case (EvTap sid data)
  show ?thesis unfolding EvTap using ok by (rule tap_step)
next
  case (EvDisconnect sid)
  show ?thesis unfolding EvDisconnect using ok by (rule disconnect_step)
next
  case (EvFire h now ws)
  show ?thesis unfolding EvFire
  proof (cases "timers st h")
    case None
    then show "finish_step g (EvFire h now ws) st" by (rule fire_idle_step)
  next
    case (Some t)
    show "finish_step g (EvFire h now ws) st"
    proof (cases "callback t")
      case (CountdownTick g' r')
      with ok Some show ?thesis by (rule fire_tick_step)
    next
      case (EndGame g')
      with ok tok Some show ?thesis by (rule fire_end_step)
    next
      case (Cleanup g')
      with ok Some show ?thesis by (rule fire_cleanup_step)
    qed
  qed
qed

lemma created_ids_Cons: "created_ids (ev # evs) = created_ids [ev] @ created_ids evs"
  by (cases ev) simp_all

lemma finish_stepD:
  assumes "finish_step g ev st"
  shows "no_finish g st \<Longrightarrow> \<not> finishing g ev st"
    and "no_finish g st \<Longrightarrow> no_finish g (step ev st)"
    and "one_finish g st \<Longrightarrow> finishing g ev st \<Longrightarrow> no_finish g (step ev st)"
    and "one_finish g st \<Longrightarrow> \<not> finishing g ev st \<Longrightarrow> one_finish g (step ev st)"
  using assms unfolding finish_step_def by (simp_all split: if_splits)

text \<open>Under \<open>no_finish\<close> a session never finishes, under \<open>one_finish\<close> at most once.\<close>

lemma finishes_none:
  assumes "registry_ok st" and "timers_ok st" and "no_finish g st"
    and "g \<notin> set (created_ids evs)"
  shows "finishes g evs st = 0"
  using assms
proof (induction evs arbitrary: st)
  case Nil
  show ?case by simp
next
  case (Cons ev evs)
  have split: "g \<notin> set (created_ids [ev])" "g \<notin> set (created_ids evs)"
    using Cons.prems(4) by (simp_all add: created_ids_Cons [of ev evs])
  have fs: "finish_step g ev st"
    using Cons.prems(1,2) split(1) by (rule step_finish_invariant)
  have nf: "\<not> finishing g ev st" using fs Cons.prems(3) by (rule finish_stepD(1))
  have "finishes g evs (step ev st) = 0"
  proof (rule Cons.IH)
    show "registry_ok (step ev st)" using Cons.prems(1) by (rule step_registry_ok)
    show "timers_ok (step ev st)" using Cons.prems(2) by (rule step_timers_ok)
    show "no_finish g (step ev st)" using fs Cons.prems(3) by (rule finish_stepD(2))
    show "g \<notin> set (created_ids evs)" by (rule split(2))
  qed
  then show ?case using nf by simp
qed

lemma finishes_once:
  assumes "registry_ok st" and "timers_ok st" and "one_finish g st"
    and "g \<notin> set (created_ids evs)"
  shows "finishes g evs st \<le> 1"
  using assms
proof (induction evs arbitrary: st)
  case Nil
  show ?case by simp
next
  case (Cons ev evs)
  have split: "g \<notin> set (created_ids [ev])" "g \<notin> set (created_ids evs)"
    using Cons.prems(4) by (simp_all add: created_ids_Cons [of ev evs])
  have fs: "finish_step g ev st"
    using Cons.prems(1,2) split(1) by (rule step_finish_invariant)
  have rok: "registry_ok (step ev st)" using Cons.prems(1) by (rule step_registry_ok)
  have tok: "timers_ok (step ev st)" using Cons.prems(2) by (rule step_timers_ok)
  show ?case
  proof (cases "finishing g ev st")
    case True
    have "no_finish g (step ev st)" using fs Cons.prems(3) True by (rule finish_stepD(3))
    with rok tok have "finishes g evs (step ev st) = 0"
      using split(2) by (rule finishes_none)
    then show ?thesis using True by simp
  next
    case False
    have "one_finish g (step ev st)" using fs Cons.prems(3) False by (rule finish_stepD(4))
    with rok tok have "finishes g evs (step ev st) \<le> 1"
      using split(2) by (rule Cons.IH)
    then show ?thesis using False by simp
  qed
qed

lemma no_finish_one_finish: "no_finish g st \<Longrightarrow> one_finish g st"
  unfolding no_finish_def one_finish_def by blast

lemma create_arms:
  assumes "no_finish g st"
  shows "one_finish g (step (EvCreate ts rnd) st)"
proof -
  have same: "timers (step (EvCreate ts rnd) st) = timers st"
    by (simp add: createGame_def Let_def)
  have "\<And>h. live_handle g (step (EvCreate ts rnd) st) h = live_handle g st h"
    by (rule live_handle_same [OF same])
  then have "\<And>h. \<not> live_handle g (step (EvCreate ts rnd) st) h"
    using assms unfolding no_finish_def by blast
  then show ?thesis unfolding one_finish_def by blast
qed

lemma finishes_fresh:
  assumes "registry_ok st" and "timers_ok st" and "no_finish g st"
    and "distinct (created_ids evs)"
  shows "finishes g evs st \<le> 1"
  using assms
proof (induction evs arbitrary: st)
  case Nil
  show ?case by simp
next
  case (Cons ev evs)
  have rok: "registry_ok (step ev st)" using Cons.prems(1) by (rule step_registry_ok)
  have tok: "timers_ok (step ev st)" using Cons.prems(2) by (rule step_timers_ok)
  have dist: "distinct (created_ids [ev] @ created_ids evs)"
    using Cons.prems(4) by (simp only: created_ids_Cons [of ev evs])
  then have drest: "distinct (created_ids evs)" by simp
  show ?case
  proof (cases "g \<in> set (created_ids [ev])")
    case False
    have fs: "finish_step g ev st"
      using Cons.prems(1,2) False by (rule step_finish_invariant)
    have nf: "\<not> finishing g ev st" using fs Cons.prems(3) by (rule finish_stepD(1))
    have "no_finish g (step ev st)" using fs Cons.prems(3) by (rule finish_stepD(2))
    with rok tok have "finishes g evs (step ev st) \<le> 1"
      using drest by (rule Cons.IH)
    then show ?thesis using nf by simp
  next
    case True
    then obtain ts rnd where ev: "ev = EvCreate ts rnd"
      by (cases ev) simp_all
    have nf: "\<not> finishing g ev st" by (simp add: ev finishing_def)
    have "g \<notin> set (created_ids evs)" using dist True by auto
    moreover have "one_finish g (step ev st)"
      unfolding ev using Cons.prems(3) by (rule create_arms)
    ultimately have "finishes g evs (step ev st) \<le> 1"
      using rok tok by (intro finishes_once)
    then show ?thesis using nf by simp
  qed
qed

lemma init_server_quiet:
  "registry_ok init_server" "timers_ok init_server" "no_finish g init_server"
proof -
  show "registry_ok init_server"
    by (rule registry_okI) (simp_all add: init_server_def)
  show "timers_ok init_server"
    by (simp add: timers_ok_def init_server_def)
  show "no_finish g init_server"
    by (simp add: no_finish_def live_handle_def waiting_game_def init_server_def)
qed

lemma finishes_from_start:
  assumes "distinct (created_ids evs)"
  shows "finishes g evs init_server \<le> 1"
  using init_server_quiet assms by (rule finishes_fresh)

text \<open>An event that is not the finish transition of a session adds no row of that session.\<close>

lemma step_rows_of_session:
  assumes "\<not> finishing g ev st"
  shows "filter_mset (\<lambda>row. game_id row = g) (mset (sprint_results (step ev st)))
       = filter_mset (\<lambda>row. game_id row = g) (mset (sprint_results st))"
proof (cases "ends_window ev st")
  case False
  then show ?thesis by (simp add: step_writes_nothing)
next
  case True
  then obtain h now writes t g' where ev: "ev = EvFire h now writes" and t: "timers st h = Some t"
    and cb: "callback t = EndGame g'"
    by (auto simp add: ends_window_def split: event.splits option.splits callback.splits)
  let ?st = "if repeat t then st else st\<lparr>timers := (timers st)(h := None)\<rparr>"
  have eq: "step ev st = endSprintGame g' writes ?st"
    by (simp add: ev fire_def run_callback_def t cb)
  have same: "sprint_results ?st = sprint_results st" "sprintGames ?st = sprintGames st"
    by simp_all
  show ?thesis
  proof (cases "g' = g")
    case True
    then have "sprintGames ?st g' = None"
      using assms by (simp add: ev finishing_fire t cb)
    then have "endSprintGame g' writes ?st = ?st" by (rule helpers_missing(3))
    then show ?thesis by (simp add: eq)
  next
    case False
    obtain new where new: "mset (sprint_results (endSprintGame g' writes ?st))
        = mset (sprint_results ?st) + mset new"
      "\<forall>row \<in> set new. user_id row = None \<and> game_id row = g'"
      using endSprintGame_new_rows [of g' writes ?st] by auto
    have "filter_mset (\<lambda>row. game_id row = g) (mset new) = {#}"
      using new(2) False by (auto simp add: filter_mset_eq_conv)
    then show ?thesis by (simp add: eq new(1) same(1))
  qed
qed

lemma alice_run_finishes: "finishes ''sprint_1_a'' alice_run init_server = 1"
  by (simp add: alice_run_def finishing_def createGame_def join_sprint_def
      startSprintCountdown_def fire_def run_callback_def countdownTick_def startSprintGame_def
      endSprintGame_def tap_def save_results_fields Let_def prim_defs init_server_def
      new_game_def Map_set_def Map_get_def Map_size_def Map_values_def)

text \<open>
  The proviso on the ids is needed: in a run in which two creations generate the same
  id, the second game object is activated by the countdown of the first and by its own,
  two end-of-window timers are set for the one id, and the session finishes twice, each
  time with a row for its player.
\<close>

lemma collision_run_finishes:
  "\<not> distinct (created_ids collision_run)"
  "finishes ''sprint_1_a'' collision_run init_server = 2"
  "map row_taps (sprint_results (run collision_run init_server)) = [0, 0]"
  by (simp_all add: collision_run_def run_def finishing_def createGame_def join_sprint_def
      startSprintCountdown_def fire_def run_callback_def countdownTick_def startSprintGame_def
      endSprintGame_def save_results_fields Let_def prim_defs init_server_def
      new_game_def Map_set_def Map_get_def Map_size_def Map_values_def
      db_run_insert_def land_row_def write_for_def)

text \<open>
  C9, as the code has it. Every row of the table, after any run of the server from
  start-up, has no user id: the join handler does the same whatever identity the caller
  has, and the INSERT writes \<^verbatim>\<open>null\<close>. Rows are written by the end of a game window
  only: any other event leaves the table as it is, and an event that is not the finish
  transition of a session leaves the rows of that session as they are. The finish
  transition of a registered game adds, in whatever order the store commits them, one
  row for each player whose write the store accepts. And it runs at most once for a
  session in any run from start-up in which no two creations generate the same id: the
  rows of a session are written once.
\<close>

theorem result_rows_anonymous:
  "(\<forall>row \<in> set (sprint_results (run evs init_server)). user_id row = None)
   \<and> join_sprint sid (Some (d\<lparr>d_caller := c\<rparr>)) st = join_sprint sid (Some d) st
   \<and> (\<not> ends_window ev st \<longrightarrow> sprint_results (step ev st) = sprint_results st)
   \<and> (\<not> finishing g ev st \<longrightarrow>
         filter_mset (\<lambda>row. game_id row = g) (mset (sprint_results (step ev st)))
           = filter_mset (\<lambda>row. game_id row = g) (mset (sprint_results st)))
   \<and> (\<forall>r. sprintGames st g = Some r \<longrightarrow>
         mset (sprint_results (endSprintGame g writes st)) = mset (sprint_results st)
           + mset (map (\<lambda>p. \<lparr>game_id = g, user_id = None, row_taps = taps p\<rparr>)
               (landed writes (Map_values (players (heap st r))))))
   \<and> (distinct (created_ids evs) \<longrightarrow> finishes g evs init_server \<le> 1)"
proof (intro conjI allI impI)
  show "\<forall>row \<in> set (sprint_results (run evs init_server)). user_id row = None"
    by (rule run_rows_anonymous) (simp add: init_server_def)
  show "join_sprint sid (Some (d\<lparr>d_caller := c\<rparr>)) st = join_sprint sid (Some d) st"
    by (rule join_ignores_caller)
next
  assume "\<not> ends_window ev st"
  then show "sprint_results (step ev st) = sprint_results st"
    by (rule step_writes_nothing)
next
  assume "\<not> finishing g ev st"
  then show "filter_mset (\<lambda>row. game_id row = g) (mset (sprint_results (step ev st)))
           = filter_mset (\<lambda>row. game_id row = g) (mset (sprint_results st))"
    by (rule step_rows_of_session)
next
  fix r
  assume "sprintGames st g = Some r"
  then show "mset (sprint_results (endSprintGame g writes st)) = mset (sprint_results st)
           + mset (map (\<lambda>p. \<lparr>game_id = g, user_id = None, row_taps = taps p\<rparr>)
               (landed writes (Map_values (players (heap st r)))))"
    by (rule endSprintGame_table)
next
  assume "distinct (created_ids evs)"
  then show "finishes g evs init_server \<le> 1"
    by (rule finishes_from_start)
qed

text \<open>
  On the run of alice's game, which has one creation and one finish transition, and on
  the example game with bob's write failing.
\<close>

theorem result_rows_anonymous_witness:
  "\<lparr>game_id = ''sprint_1_a'', user_id = None, row_taps = 1\<rparr>
      \<in> set (sprint_results (run alice_run init_server))
   \<and> \<not> ends_window (EvTap ''s1'' (Some \<lparr>t_gameId = ''g1''\<rparr>)) active_server
   \<and> \<not> finishing ''g1'' (EvTap ''s1'' (Some \<lparr>t_gameId = ''g1''\<rparr>)) active_server
   \<and> sprintGames active_server ''g1'' = Some 0
   \<and> distinct (created_ids alice_run)
   \<and> list_all (\<lambda>row. user_id row = None) (sprint_results (run alice_run init_server))
   \<and> sprint_results (step (EvTap ''s1'' (Some \<lparr>t_gameId = ''g1''\<rparr>)) active_server)
        = sprint_results active_server
   \<and> mset (sprint_results (endSprintGame ''g1'' [WriteLands 2, WriteFails] active_server))
        = {#\<lparr>game_id = ''g1'', user_id = None, row_taps = 3\<rparr>,
            \<lparr>game_id = ''g1'', user_id = None, row_taps = 3\<rparr>#}
   \<and> finishes ''sprint_1_a'' alice_run init_server \<le> 1"
proof -
  let ?tap = "EvTap ''s1'' (Some \<lparr>t_gameId = ''g1''\<rparr>)"
  have row: "\<lparr>game_id = ''sprint_1_a'', user_id = None, row_taps = 1\<rparr>
      \<in> set (sprint_results (run alice_run init_server))"
    by (simp add: alice_run_rows)
  have nw: "\<not> ends_window ?tap active_server"
    by (simp add: ends_window_def)
  have nf: "\<not> finishing ''g1'' ?tap active_server"
    by (simp add: finishing_def)
  have reg: "sprintGames active_server ''g1'' = Some 0"
    by (simp add: active_server_def demo_server_def)
  have dist: "distinct (created_ids alice_run)"
    by (simp add: alice_run_def)
  have ps: "Map_values (players (heap active_server 0)) = [alice, bob, carol]"
    "sprint_results active_server = []"
    by (simp_all add: active_server_def demo_server_def demo_game_def Map_values_def)
  note T = result_rows_anonymous [where evs = alice_run and ev = ?tap and st = active_server
      and g = "''g1''" and writes = "[WriteLands 2, WriteFails]"]
  note U = result_rows_anonymous [where evs = alice_run and g = "''sprint_1_a''"]
  have a: "list_all (\<lambda>row. user_id row = None) (sprint_results (run alice_run init_server))"
    using T [THEN conjunct1] by (simp only: list_all_iff)
  note b = T [THEN conjunct2, THEN conjunct2, THEN conjunct1, rule_format, OF nw]
  note c = T [THEN conjunct2, THEN conjunct2, THEN conjunct2, THEN conjunct2, THEN conjunct1,
      rule_format, OF reg]
  have c': "mset (sprint_results (endSprintGame ''g1'' [WriteLands 2, WriteFails] active_server))
        = {#\<lparr>game_id = ''g1'', user_id = None, row_taps = 3\<rparr>,
            \<lparr>game_id = ''g1'', user_id = None, row_taps = 3\<rparr>#}"
    by (simp add: c ps write_for_def alice_def bob_def carol_def)
  note e = U [THEN conjunct2, THEN conjunct2, THEN conjunct2, THEN conjunct2, THEN conjunct2,
      rule_format, OF dist]
  from row nw nf reg dist a b c' e show ?thesis by (intro conjI)
qed

text \<open>
  The caller of the join in alice's run is authenticated as user 7; the row written for
  her has no user id.
\<close>

theorem result_rows_anonymous_counterexample:
  "alice_run ! 1 = EvJoin ''s1''
      (Some \<lparr>d_gameId = ''sprint_1_a'', d_username = Some ''alice'', d_caller = Some 7\<rparr>)
   \<and> map user_id (sprint_results (run alice_run init_server)) = [None]
   \<and> map user_id (sprint_results (run alice_run init_server)) \<noteq> [Some 7]"
  by (simp add: alice_run_rows) (simp add: alice_run_def)

end
